theory Spec2Isabelle
  imports Main "HOL-Library.Word"
begin

unbundle bit_operations_syntax

section \<open>Data model of \<open>src/pulsecore/mix.c\<close>\<close>

text \<open>
  Memory is a map from byte offsets to bytes. A pointer into a buffer is a byte offset
  into that buffer's memory; \<open>data\<close> and \<open>end\<close> of a kernel are offsets into the
  destination memory.
\<close>

type_synonym byte = "8 word"
type_synonym mem = "nat \<Rightarrow> byte"

datatype pa_sample_format =
    PA_SAMPLE_U8 | PA_SAMPLE_ALAW | PA_SAMPLE_ULAW
  | PA_SAMPLE_S16LE | PA_SAMPLE_S16BE
  | PA_SAMPLE_FLOAT32LE | PA_SAMPLE_FLOAT32BE
  | PA_SAMPLE_S32LE | PA_SAMPLE_S32BE
  | PA_SAMPLE_S24LE | PA_SAMPLE_S24BE
  | PA_SAMPLE_S24_32LE | PA_SAMPLE_S24_32BE

record pa_sample_spec =
  format :: pa_sample_format
  rate :: nat
  channels :: nat

text \<open>\<open>pa_cvolume\<close>: a channel count and one \<open>pa_volume_t\<close> (\<open>uint32_t\<close>) per channel.\<close>

record pa_cvolume =
  cv_channels :: nat
  cv_values :: "nat \<Rightarrow> 32 word"

record pa_memblock =
  mb_data :: mem
  is_silence :: bool

record pa_memchunk =
  memblock :: pa_memblock
  chunk_index :: nat
  chunk_length :: nat

text \<open>
  \<open>pa_mix_info\<close>. The C field \<open>linear[]\<close> is an array of unions \<open>{int32_t i; float f}\<close>;
  a kernel reads only the member that the gain calculator of the same format wrote, so the
  two members are kept as two fields. \<open>ptr\<close> is the read cursor, an offset into the data
  of the chunk's memory block. The type \<open>'f\<close> stands for C's \<open>float\<close>.
\<close>

record 'f pa_mix_info =
  chunk :: pa_memchunk
  volume :: pa_cvolume
  ptr :: nat
  linear_i :: "nat \<Rightarrow> 32 word"
  linear_f :: "nat \<Rightarrow> 'f"

definition VOLUME_PADDING :: nat where
  "VOLUME_PADDING = 32"

section \<open>Raw loads and stores\<close>

text \<open>
  Words are assembled from bytes, most significant first, by \<open>cat16\<close> and \<open>cat32\<close>;
  \<open>byte_of k w\<close> is byte \<open>k\<close> of \<open>w\<close>, counted from the least significant one.
\<close>

definition cat16 :: "byte \<Rightarrow> byte \<Rightarrow> 16 word" where
  "cat16 b1 b0 = push_bit 8 (ucast b1) OR ucast b0"

definition cat32 :: "byte \<Rightarrow> byte \<Rightarrow> byte \<Rightarrow> byte \<Rightarrow> 32 word" where
  "cat32 b3 b2 b1 b0 =
     push_bit 24 (ucast b3) OR push_bit 16 (ucast b2) OR push_bit 8 (ucast b1) OR ucast b0"

definition byte_of :: "nat \<Rightarrow> 'a::len word \<Rightarrow> byte" where
  "byte_of k w = ucast (drop_bit (8 * k) w)"

text \<open>
  \<open>be\<close> is the host's byte order (\<open>WORDS_BIGENDIAN\<close>). A native load
  \<open>*((int16_t*) p)\<close> assembles the bytes in host order, a native store lays them out in
  host order.
\<close>

definition load16 :: "bool \<Rightarrow> mem \<Rightarrow> nat \<Rightarrow> 16 word" where
  "load16 be m p = (if be then cat16 (m p) (m (p + 1)) else cat16 (m (p + 1)) (m p))"

definition load32 :: "bool \<Rightarrow> mem \<Rightarrow> nat \<Rightarrow> 32 word" where
  "load32 be m p =
     (if be then cat32 (m p) (m (p + 1)) (m (p + 2)) (m (p + 3))
      else cat32 (m (p + 3)) (m (p + 2)) (m (p + 1)) (m p))"

definition bytes16 :: "bool \<Rightarrow> 16 word \<Rightarrow> byte list" where
  "bytes16 be w = (if be then [byte_of 1 w, byte_of 0 w] else [byte_of 0 w, byte_of 1 w])"

definition bytes32 :: "bool \<Rightarrow> 32 word \<Rightarrow> byte list" where
  "bytes32 be w =
     (if be then [byte_of 3 w, byte_of 2 w, byte_of 1 w, byte_of 0 w]
      else [byte_of 0 w, byte_of 1 w, byte_of 2 w, byte_of 3 w])"

text \<open>
  Modelled from the spec: the macros of \<open>endianmacros.h\<close>, which is not under src/.
  \<open>PA_READ24BE\<close> is \<open>p[0] << 16 | p[1] << 8 | p[2]\<close> and \<open>PA_READ24LE\<close> the mirror
  image; \<open>PA_READ24NE\<close> is the one of the host order, \<open>PA_READ24RE\<close> the other, and
  likewise for \<open>PA_WRITE24\<close>. The swap macros reverse the bytes of their argument.
\<close>

definition PA_READ24 :: "bool \<Rightarrow> mem \<Rightarrow> nat \<Rightarrow> 32 word" where
  "PA_READ24 be m p =
     (if be then cat32 0 (m p) (m (p + 1)) (m (p + 2))
      else cat32 0 (m (p + 2)) (m (p + 1)) (m p))"

definition PA_WRITE24 :: "bool \<Rightarrow> 32 word \<Rightarrow> byte list" where
  "PA_WRITE24 be u =
     (if be then [byte_of 2 u, byte_of 1 u, byte_of 0 u]
      else [byte_of 0 u, byte_of 1 u, byte_of 2 u])"

definition PA_INT16_SWAP :: "16 word \<Rightarrow> 16 word" where
  "PA_INT16_SWAP x = cat16 (byte_of 0 x) (byte_of 1 x)"

definition PA_UINT32_SWAP :: "32 word \<Rightarrow> 32 word" where
  "PA_UINT32_SWAP x = cat32 (byte_of 0 x) (byte_of 1 x) (byte_of 2 x) (byte_of 3 x)"

text \<open>Writing a run of bytes at offset \<open>p\<close>; everything outside \<open>[p, p + length bs)\<close> is kept.\<close>

definition store :: "mem \<Rightarrow> nat \<Rightarrow> byte list \<Rightarrow> mem" where
  "store m p bs = (\<lambda>i. if p \<le> i \<and> i < p + length bs then bs ! (i - p) else m i)"

text \<open>
  Modelled from the spec: \<open>PA_CLAMP_UNLIKELY(x, low, high)\<close> of \<open>macro.h\<close>, not under src/:
  \<open>x > high ? high : (x < low ? low : x)\<close>, on signed values.
\<close>

definition PA_CLAMP_UNLIKELY :: "'a::len word \<Rightarrow> 'a word \<Rightarrow> 'a word \<Rightarrow> 'a word" where
  "PA_CLAMP_UNLIKELY x low high = (if high <s x then high else if x <s low then low else x)"

section \<open>The mixing kernels\<close>

text \<open>
  All thirteen kernels are the same two nested loops. The inner loop
  \<open>for (i = 0; i < nstreams; i++)\<close> runs the kernel's guarded decode-and-accumulate step
  \<open>acc\<close> on each stream and then advances the stream's cursor by \<open>rs\<close> bytes.
  Signed arithmetic is two's complement with wrap-around, \<open>>>\<close> on a signed value is the
  arithmetic shift.
\<close>

fun mix_streams ::
  "('f pa_mix_info \<Rightarrow> nat \<Rightarrow> 'a \<Rightarrow> 'a) \<Rightarrow> nat \<Rightarrow> nat \<Rightarrow> 'f pa_mix_info list \<Rightarrow> 'a
     \<Rightarrow> 'a \<times> 'f pa_mix_info list" where
  "mix_streams acc rs channel [] sum0 = (sum0, [])"
| "mix_streams acc rs channel (m # ms) sum0 =
     (case mix_streams acc rs channel ms (acc m channel sum0) of
        (sum1, ms') \<Rightarrow> (sum1, m\<lparr>ptr := ptr m + rs\<rparr> # ms'))"

text \<open>
  The outer loop \<open>while (data < end)\<close>: one output sample slot per round. \<open>zero\<close> is the
  initial accumulator, \<open>enc\<close> clamps and encodes the accumulator into the bytes written at
  \<open>data\<close>, \<open>ws\<close> is the step of \<open>data\<close>. Every kernel passes a positive constant for
  \<open>ws\<close>; the test \<open>0 < ws\<close> only makes the definition total for other values.
\<close>

function mix_loop ::
  "('f pa_mix_info \<Rightarrow> nat \<Rightarrow> 'a \<Rightarrow> 'a) \<Rightarrow> nat \<Rightarrow> 'a \<Rightarrow> ('a \<Rightarrow> byte list) \<Rightarrow> nat \<Rightarrow> nat
     \<Rightarrow> 'f pa_mix_info list \<Rightarrow> nat \<Rightarrow> mem \<Rightarrow> nat \<Rightarrow> nat \<Rightarrow> 'f pa_mix_info list \<times> mem" where
  "mix_loop acc rs zero enc ws nch streams channel dst data end' =
     (if data < end' \<and> 0 < ws then
        (case mix_streams acc rs channel streams zero of
           (sum0, streams') \<Rightarrow>
             mix_loop acc rs zero enc ws nch streams'
               (if channel + 1 \<ge> nch then 0 else channel + 1)
               (store dst data (enc sum0)) (data + ws) end')
      else (streams, dst))"
  by pat_completeness auto
termination
  by (relation "measure (\<lambda>(acc, rs, zero, enc, ws, nch, streams, channel, dst, data, end'). end' - data)")
     auto

text \<open>The hi/lo multiplication of the 16-bit and companded kernels.\<close>

definition hilo_scale :: "32 word \<Rightarrow> 32 word \<Rightarrow> 32 word" where
  "hilo_scale v cv =
     (let hi = signed_drop_bit 16 cv; lo = cv AND 0xFFFF
      in signed_drop_bit 16 (v * lo) + v * hi)"

text \<open>The wide multiplication of the 24- and 32-bit kernels: \<open>(v * cv) >> 16\<close> in \<open>int64_t\<close>.\<close>

definition wide_scale :: "32 word \<Rightarrow> 32 word \<Rightarrow> 64 word" where
  "wide_scale v cv = signed_drop_bit 16 ((scast v :: 64 word) * scast cv)"

definition stream_mem :: "'f pa_mix_info \<Rightarrow> mem" where
  "stream_mem m = mb_data (memblock (chunk m))"

subsection \<open>16 bit\<close>

definition acc_s16ne :: "bool \<Rightarrow> 'f pa_mix_info \<Rightarrow> nat \<Rightarrow> 32 word \<Rightarrow> 32 word" where
  "acc_s16ne be m channel sum0 =
     (let cv = linear_i m channel in
      if 0 <s cv then sum0 + hilo_scale (scast (load16 be (stream_mem m) (ptr m))) cv else sum0)"

definition enc_s16ne :: "bool \<Rightarrow> 32 word \<Rightarrow> byte list" where
  "enc_s16ne be sum0 = bytes16 be (ucast (PA_CLAMP_UNLIKELY sum0 (- 0x8000) 0x7FFF))"

definition pa_mix_s16ne_c ::
  "bool \<Rightarrow> 'f pa_mix_info list \<Rightarrow> nat \<Rightarrow> mem \<Rightarrow> nat \<Rightarrow> nat \<Rightarrow> 'f pa_mix_info list \<times> mem" where
  "pa_mix_s16ne_c be streams nch dst data end' =
     mix_loop (acc_s16ne be) 2 0 (enc_s16ne be) 2 nch streams 0 dst data end'"

definition acc_s16re :: "bool \<Rightarrow> 'f pa_mix_info \<Rightarrow> nat \<Rightarrow> 32 word \<Rightarrow> 32 word" where
  "acc_s16re be m channel sum0 =
     (let cv = linear_i m channel in
      if 0 <s cv
      then sum0 + hilo_scale (scast (PA_INT16_SWAP (load16 be (stream_mem m) (ptr m)))) cv
      else sum0)"

definition enc_s16re :: "bool \<Rightarrow> 32 word \<Rightarrow> byte list" where
  "enc_s16re be sum0 =
     bytes16 be (PA_INT16_SWAP (ucast (PA_CLAMP_UNLIKELY sum0 (- 0x8000) 0x7FFF)))"

definition pa_mix_s16re_c ::
  "bool \<Rightarrow> 'f pa_mix_info list \<Rightarrow> nat \<Rightarrow> mem \<Rightarrow> nat \<Rightarrow> nat \<Rightarrow> 'f pa_mix_info list \<times> mem" where
  "pa_mix_s16re_c be streams nch dst data end' =
     mix_loop (acc_s16re be) 2 0 (enc_s16re be) 2 nch streams 0 dst data end'"

subsection \<open>32 bit\<close>

definition acc_s32ne :: "bool \<Rightarrow> 'f pa_mix_info \<Rightarrow> nat \<Rightarrow> 64 word \<Rightarrow> 64 word" where
  "acc_s32ne be m channel sum0 =
     (let cv = linear_i m channel in
      if 0 <s cv then sum0 + wide_scale (load32 be (stream_mem m) (ptr m)) cv else sum0)"

definition enc_s32ne :: "bool \<Rightarrow> 64 word \<Rightarrow> byte list" where
  "enc_s32ne be sum0 = bytes32 be (ucast (PA_CLAMP_UNLIKELY sum0 (- 0x80000000) 0x7FFFFFFF))"

definition pa_mix_s32ne_c ::
  "bool \<Rightarrow> 'f pa_mix_info list \<Rightarrow> nat \<Rightarrow> mem \<Rightarrow> nat \<Rightarrow> nat \<Rightarrow> 'f pa_mix_info list \<times> mem" where
  "pa_mix_s32ne_c be streams nch dst data end' =
     mix_loop (acc_s32ne be) 4 0 (enc_s32ne be) 4 nch streams 0 dst data end'"

definition acc_s32re :: "bool \<Rightarrow> 'f pa_mix_info \<Rightarrow> nat \<Rightarrow> 64 word \<Rightarrow> 64 word" where
  "acc_s32re be m channel sum0 =
     (let cv = linear_i m channel in
      if 0 <s cv
      then sum0 + wide_scale (PA_UINT32_SWAP (load32 be (stream_mem m) (ptr m))) cv
      else sum0)"

definition enc_s32re :: "bool \<Rightarrow> 64 word \<Rightarrow> byte list" where
  "enc_s32re be sum0 =
     bytes32 be (PA_UINT32_SWAP (ucast (PA_CLAMP_UNLIKELY sum0 (- 0x80000000) 0x7FFFFFFF)))"

definition pa_mix_s32re_c ::
  "bool \<Rightarrow> 'f pa_mix_info list \<Rightarrow> nat \<Rightarrow> mem \<Rightarrow> nat \<Rightarrow> nat \<Rightarrow> 'f pa_mix_info list \<times> mem" where
  "pa_mix_s32re_c be streams nch dst data end' =
     mix_loop (acc_s32re be) 4 0 (enc_s32re be) 4 nch streams 0 dst data end'"

subsection \<open>Packed 24 bit\<close>

definition acc_s24ne :: "bool \<Rightarrow> 'f pa_mix_info \<Rightarrow> nat \<Rightarrow> 64 word \<Rightarrow> 64 word" where
  "acc_s24ne be m channel sum0 =
     (let cv = linear_i m channel in
      if 0 <s cv then sum0 + wide_scale (push_bit 8 (PA_READ24 be (stream_mem m) (ptr m))) cv
      else sum0)"

definition enc_s24ne :: "bool \<Rightarrow> 64 word \<Rightarrow> byte list" where
  "enc_s24ne be sum0 =
     PA_WRITE24 be (drop_bit 8 (ucast (PA_CLAMP_UNLIKELY sum0 (- 0x80000000) 0x7FFFFFFF) :: 32 word))"

definition pa_mix_s24ne_c ::
  "bool \<Rightarrow> 'f pa_mix_info list \<Rightarrow> nat \<Rightarrow> mem \<Rightarrow> nat \<Rightarrow> nat \<Rightarrow> 'f pa_mix_info list \<times> mem" where
  "pa_mix_s24ne_c be streams nch dst data end' =
     mix_loop (acc_s24ne be) 3 0 (enc_s24ne be) 3 nch streams 0 dst data end'"

definition acc_s24re :: "bool \<Rightarrow> 'f pa_mix_info \<Rightarrow> nat \<Rightarrow> 64 word \<Rightarrow> 64 word" where
  "acc_s24re be m channel sum0 =
     (let cv = linear_i m channel in
      if 0 <s cv
      then sum0 + wide_scale (push_bit 8 (PA_READ24 (\<not> be) (stream_mem m) (ptr m))) cv
      else sum0)"

definition enc_s24re :: "bool \<Rightarrow> 64 word \<Rightarrow> byte list" where
  "enc_s24re be sum0 =
     PA_WRITE24 (\<not> be)
       (drop_bit 8 (ucast (PA_CLAMP_UNLIKELY sum0 (- 0x80000000) 0x7FFFFFFF) :: 32 word))"

definition pa_mix_s24re_c ::
  "bool \<Rightarrow> 'f pa_mix_info list \<Rightarrow> nat \<Rightarrow> mem \<Rightarrow> nat \<Rightarrow> nat \<Rightarrow> 'f pa_mix_info list \<times> mem" where
  "pa_mix_s24re_c be streams nch dst data end' =
     mix_loop (acc_s24re be) 3 0 (enc_s24re be) 3 nch streams 0 dst data end'"

subsection \<open>24 bit in 32 bit containers\<close>

definition acc_s24_32ne :: "bool \<Rightarrow> 'f pa_mix_info \<Rightarrow> nat \<Rightarrow> 64 word \<Rightarrow> 64 word" where
  "acc_s24_32ne be m channel sum0 =
     (let cv = linear_i m channel in
      if 0 <s cv then sum0 + wide_scale (push_bit 8 (load32 be (stream_mem m) (ptr m))) cv
      else sum0)"

definition enc_s24_32ne :: "bool \<Rightarrow> 64 word \<Rightarrow> byte list" where
  "enc_s24_32ne be sum0 =
     bytes32 be (drop_bit 8 (ucast (PA_CLAMP_UNLIKELY sum0 (- 0x80000000) 0x7FFFFFFF) :: 32 word))"

definition pa_mix_s24_32ne_c ::
  "bool \<Rightarrow> 'f pa_mix_info list \<Rightarrow> nat \<Rightarrow> mem \<Rightarrow> nat \<Rightarrow> nat \<Rightarrow> 'f pa_mix_info list \<times> mem" where
  "pa_mix_s24_32ne_c be streams nch dst data end' =
     mix_loop (acc_s24_32ne be) 4 0 (enc_s24_32ne be) 4 nch streams 0 dst data end'"

definition acc_s24_32re :: "bool \<Rightarrow> 'f pa_mix_info \<Rightarrow> nat \<Rightarrow> 64 word \<Rightarrow> 64 word" where
  "acc_s24_32re be m channel sum0 =
     (let cv = linear_i m channel in
      if 0 <s cv
      then sum0 + wide_scale (push_bit 8 (PA_UINT32_SWAP (load32 be (stream_mem m) (ptr m)))) cv
      else sum0)"

definition enc_s24_32re :: "bool \<Rightarrow> 64 word \<Rightarrow> byte list" where
  "enc_s24_32re be sum0 =
     bytes32 be (PA_UINT32_SWAP
       (drop_bit 8 (ucast (PA_CLAMP_UNLIKELY sum0 (- 0x80000000) 0x7FFFFFFF) :: 32 word)))"

text \<open>
  The source advances the read cursor of this kernel by the literal \<open>3\<close> (line 370), while
  it loads four bytes and steps \<open>data\<close> by \<open>sizeof(uint32_t)\<close>.
\<close>

definition pa_mix_s24_32re_c ::
  "bool \<Rightarrow> 'f pa_mix_info list \<Rightarrow> nat \<Rightarrow> mem \<Rightarrow> nat \<Rightarrow> nat \<Rightarrow> 'f pa_mix_info list \<times> mem" where
  "pa_mix_s24_32re_c be streams nch dst data end' =
     mix_loop (acc_s24_32re be) 3 0 (enc_s24_32re be) 4 nch streams 0 dst data end'"

subsection \<open>Unsigned 8 bit\<close>

definition acc_u8 :: "'f pa_mix_info \<Rightarrow> nat \<Rightarrow> 32 word \<Rightarrow> 32 word" where
  "acc_u8 m channel sum0 =
     (let cv = linear_i m channel in
      if 0 <s cv
      then sum0 + signed_drop_bit 16 ((ucast (stream_mem m (ptr m)) - 0x80) * cv)
      else sum0)"

definition enc_u8 :: "32 word \<Rightarrow> byte list" where
  "enc_u8 sum0 = [ucast (PA_CLAMP_UNLIKELY sum0 (- 0x80) 0x7F + 0x80)]"

definition pa_mix_u8_c ::
  "'f pa_mix_info list \<Rightarrow> nat \<Rightarrow> mem \<Rightarrow> nat \<Rightarrow> nat \<Rightarrow> 'f pa_mix_info list \<times> mem" where
  "pa_mix_u8_c streams nch dst data end' =
     mix_loop acc_u8 1 0 enc_u8 1 nch streams 0 dst data end'"

subsection \<open>Companded formats\<close>

text \<open>
  The G.711 tables of \<open>g711.h\<close> are external: \<open>expand\<close> stands for
  \<open>st_ulaw2linear16\<close> or \<open>st_alaw2linear16\<close>, \<open>compress\<close> for \<open>st_14linear2ulaw\<close> or
  \<open>st_13linear2alaw\<close>, which take an \<open>int16_t\<close>.
\<close>

record g711 =
  st_ulaw2linear16 :: "byte \<Rightarrow> 16 word"
  st_alaw2linear16 :: "byte \<Rightarrow> 16 word"
  st_14linear2ulaw :: "16 word \<Rightarrow> byte"
  st_13linear2alaw :: "16 word \<Rightarrow> byte"

definition acc_law :: "(byte \<Rightarrow> 16 word) \<Rightarrow> 'f pa_mix_info \<Rightarrow> nat \<Rightarrow> 32 word \<Rightarrow> 32 word" where
  "acc_law expand m channel sum0 =
     (let cv = linear_i m channel in
      if 0 <s cv then sum0 + hilo_scale (scast (expand (stream_mem m (ptr m)))) cv else sum0)"

definition enc_law :: "(16 word \<Rightarrow> byte) \<Rightarrow> nat \<Rightarrow> 32 word \<Rightarrow> byte list" where
  "enc_law compress sh sum0 =
     [compress (signed_drop_bit sh (ucast (PA_CLAMP_UNLIKELY sum0 (- 0x8000) 0x7FFF) :: 16 word))]"

definition pa_mix_ulaw_c ::
  "g711 \<Rightarrow> 'f pa_mix_info list \<Rightarrow> nat \<Rightarrow> mem \<Rightarrow> nat \<Rightarrow> nat \<Rightarrow> 'f pa_mix_info list \<times> mem" where
  "pa_mix_ulaw_c g streams nch dst data end' =
     mix_loop (acc_law (st_ulaw2linear16 g)) 1 0 (enc_law (st_14linear2ulaw g) 2) 1
       nch streams 0 dst data end'"

definition pa_mix_alaw_c ::
  "g711 \<Rightarrow> 'f pa_mix_info list \<Rightarrow> nat \<Rightarrow> mem \<Rightarrow> nat \<Rightarrow> nat \<Rightarrow> 'f pa_mix_info list \<times> mem" where
  "pa_mix_alaw_c g streams nch dst data end' =
     mix_loop (acc_law (st_alaw2linear16 g)) 1 0 (enc_law (st_13linear2alaw g) 3) 1
       nch streams 0 dst data end'"

subsection \<open>Float\<close>

text \<open>
  C's \<open>float\<close> arithmetic is not modelled: the operations the float kernels use are
  parameters. \<open>f_of_bits\<close> and \<open>f_bits\<close> convert between a float and its 32-bit image.
\<close>

record 'f float_ops =
  f_zero :: 'f
  f_add :: "'f \<Rightarrow> 'f \<Rightarrow> 'f"
  f_mul :: "'f \<Rightarrow> 'f \<Rightarrow> 'f"
  f_pos :: "'f \<Rightarrow> bool"
  f_of_bits :: "32 word \<Rightarrow> 'f"
  f_bits :: "'f \<Rightarrow> 32 word"

definition acc_float32ne :: "'f float_ops \<Rightarrow> bool \<Rightarrow> 'f pa_mix_info \<Rightarrow> nat \<Rightarrow> 'f \<Rightarrow> 'f" where
  "acc_float32ne fo be m channel sum0 =
     (let cv = linear_f m channel in
      if f_pos fo cv
      then f_add fo sum0 (f_mul fo (f_of_bits fo (load32 be (stream_mem m) (ptr m))) cv)
      else sum0)"

definition enc_float32ne :: "'f float_ops \<Rightarrow> bool \<Rightarrow> 'f \<Rightarrow> byte list" where
  "enc_float32ne fo be sum0 = bytes32 be (f_bits fo sum0)"

definition pa_mix_float32ne_c ::
  "'f float_ops \<Rightarrow> bool \<Rightarrow> 'f pa_mix_info list \<Rightarrow> nat \<Rightarrow> mem \<Rightarrow> nat \<Rightarrow> nat
     \<Rightarrow> 'f pa_mix_info list \<times> mem" where
  "pa_mix_float32ne_c fo be streams nch dst data end' =
     mix_loop (acc_float32ne fo be) 4 (f_zero fo) (enc_float32ne fo be) 4 nch streams 0 dst data end'"

definition acc_float32re :: "'f float_ops \<Rightarrow> bool \<Rightarrow> 'f pa_mix_info \<Rightarrow> nat \<Rightarrow> 'f \<Rightarrow> 'f" where
  "acc_float32re fo be m channel sum0 =
     (let cv = linear_f m channel in
      if f_pos fo cv
      then f_add fo sum0
             (f_mul fo (f_of_bits fo (PA_UINT32_SWAP (load32 be (stream_mem m) (ptr m)))) cv)
      else sum0)"

definition enc_float32re :: "'f float_ops \<Rightarrow> bool \<Rightarrow> 'f \<Rightarrow> byte list" where
  "enc_float32re fo be sum0 = bytes32 be (PA_UINT32_SWAP (f_bits fo sum0))"

definition pa_mix_float32re_c ::
  "'f float_ops \<Rightarrow> bool \<Rightarrow> 'f pa_mix_info list \<Rightarrow> nat \<Rightarrow> mem \<Rightarrow> nat \<Rightarrow> nat
     \<Rightarrow> 'f pa_mix_info list \<times> mem" where
  "pa_mix_float32re_c fo be streams nch dst data end' =
     mix_loop (acc_float32re fo be) 4 (f_zero fo) (enc_float32re fo be) 4 nch streams 0 dst data end'"

section \<open>Volume linearizers and stream gain calculators\<close>

text \<open>
  The volume curve \<open>pa_sw_volume_to_linear\<close> (\<open>volume.c\<close>) and \<open>lrint\<close> work on
  \<open>double\<close> and are external. Each expression of the source that goes through them is one
  parameter:
  \<^item> \<open>to_linear_i v\<close> is \<open>(int32_t) lrint(pa_sw_volume_to_linear(v) * 0x10000)\<close>;
  \<^item> \<open>to_linear_f v\<close> is \<open>(float) pa_sw_volume_to_linear(v)\<close>;
  \<^item> \<open>stream_gain_i v l\<close> is \<open>(int32_t) lrint(pa_sw_volume_to_linear(v) * l * 0x10000)\<close>;
  \<^item> \<open>stream_gain_f v l\<close> is \<open>(float) (pa_sw_volume_to_linear(v) * l)\<close>.
\<close>

record 'f volume_curve =
  to_linear_i :: "32 word \<Rightarrow> 32 word"
  to_linear_f :: "32 word \<Rightarrow> 'f"
  stream_gain_i :: "32 word \<Rightarrow> 'f \<Rightarrow> 32 word"
  stream_gain_f :: "32 word \<Rightarrow> 'f \<Rightarrow> 'f"

text \<open>
  The two loops of a linearizer. The scratch array \<open>linear\<close> is passed in with whatever it
  held before (in the callers it is an uninitialised array on the stack).
\<close>

function real_loop ::
  "(32 word \<Rightarrow> 'a) \<Rightarrow> pa_cvolume \<Rightarrow> nat \<Rightarrow> nat \<Rightarrow> (nat \<Rightarrow> 'a) \<Rightarrow> nat \<times> (nat \<Rightarrow> 'a)" where
  "real_loop conv vol nchannels channel linear =
     (if channel < nchannels
      then real_loop conv vol nchannels (channel + 1)
             (linear(channel := conv (cv_values vol channel)))
      else (channel, linear))"
  by pat_completeness auto
termination
  by (relation "measure (\<lambda>(conv, vol, nchannels, channel, linear). nchannels - channel)") auto

function padding_loop :: "nat \<Rightarrow> nat \<Rightarrow> (nat \<Rightarrow> 'a) \<Rightarrow> (nat \<Rightarrow> 'a)" where
  "padding_loop padding channel linear =
     (if padding < VOLUME_PADDING
      then padding_loop (padding + 1) (channel + 1) (linear(channel := linear padding))
      else linear)"
  by pat_completeness auto
termination
  by (relation "measure (\<lambda>(padding, channel, linear). VOLUME_PADDING - padding)") auto

definition calc_linear_integer_volume ::
  "'f volume_curve \<Rightarrow> (nat \<Rightarrow> 32 word) \<Rightarrow> pa_cvolume \<Rightarrow> (nat \<Rightarrow> 32 word)" where
  "calc_linear_integer_volume vc linear vol =
     (case real_loop (to_linear_i vc) vol (cv_channels vol) 0 linear of
        (channel, linear') \<Rightarrow> padding_loop 0 channel linear')"

definition calc_linear_float_volume ::
  "'f volume_curve \<Rightarrow> (nat \<Rightarrow> 'f) \<Rightarrow> pa_cvolume \<Rightarrow> (nat \<Rightarrow> 'f)" where
  "calc_linear_float_volume vc linear vol =
     (case real_loop (to_linear_f vc) vol (cv_channels vol) 0 linear of
        (channel, linear') \<Rightarrow> padding_loop 0 channel linear')"

function stream_channels_i ::
  "'f volume_curve \<Rightarrow> (nat \<Rightarrow> 'f) \<Rightarrow> nat \<Rightarrow> nat \<Rightarrow> 'f pa_mix_info \<Rightarrow> 'f pa_mix_info" where
  "stream_channels_i vc linear nch channel m =
     (if channel < nch
      then stream_channels_i vc linear nch (channel + 1)
             (m\<lparr>linear_i := (linear_i m)
                   (channel := stream_gain_i vc (cv_values (volume m) channel) (linear channel))\<rparr>)
      else m)"
  by pat_completeness auto
termination
  by (relation "measure (\<lambda>(vc, linear, nch, channel, m). nch - channel)") auto

function stream_channels_f ::
  "'f volume_curve \<Rightarrow> (nat \<Rightarrow> 'f) \<Rightarrow> nat \<Rightarrow> nat \<Rightarrow> 'f pa_mix_info \<Rightarrow> 'f pa_mix_info" where
  "stream_channels_f vc linear nch channel m =
     (if channel < nch
      then stream_channels_f vc linear nch (channel + 1)
             (m\<lparr>linear_f := (linear_f m)
                   (channel := stream_gain_f vc (cv_values (volume m) channel) (linear channel))\<rparr>)
      else m)"
  by pat_completeness auto
termination
  by (relation "measure (\<lambda>(vc, linear, nch, channel, m). nch - channel)") auto

text \<open>\<open>scratch\<close> is the initial content of the local array \<open>float linear[]\<close>.\<close>

definition calc_linear_integer_stream_volumes ::
  "'f volume_curve \<Rightarrow> (nat \<Rightarrow> 'f) \<Rightarrow> 'f pa_mix_info list \<Rightarrow> pa_cvolume \<Rightarrow> pa_sample_spec
     \<Rightarrow> 'f pa_mix_info list" where
  "calc_linear_integer_stream_volumes vc scratch streams vol spec =
     (let linear = calc_linear_float_volume vc scratch vol
      in map (stream_channels_i vc linear (channels spec) 0) streams)"

definition calc_linear_float_stream_volumes ::
  "'f volume_curve \<Rightarrow> (nat \<Rightarrow> 'f) \<Rightarrow> 'f pa_mix_info list \<Rightarrow> pa_cvolume \<Rightarrow> pa_sample_spec
     \<Rightarrow> 'f pa_mix_info list" where
  "calc_linear_float_stream_volumes vc scratch streams vol spec =
     (let linear = calc_linear_float_volume vc scratch vol
      in map (stream_channels_f vc linear (channels spec) 0) streams)"

section \<open>External collaborators and dispatch tables\<close>

text \<open>
  Everything \<open>mix.c\<close> takes from other files: the host byte order, the G.711 tables, float
  arithmetic, the volume curve, \<open>pa_sample_spec_valid\<close>, the silence bias bytes of the
  unsigned and companded formats, and the indeterminate initial content of the stack
  scratch arrays.
\<close>

record 'f ext =
  host_be :: bool
  codec :: g711
  fops :: "'f float_ops"
  curve :: "'f volume_curve"
  pa_sample_spec_valid :: "pa_sample_spec \<Rightarrow> bool"
  bias_byte :: "pa_sample_format \<Rightarrow> byte"
  scratch_f :: "nat \<Rightarrow> 'f"
  scratch_i :: "nat \<Rightarrow> 32 word"

text \<open>
  \<open>calc_stream_volumes_table\<close> and \<open>do_mix_table\<close> as initialised. The \<open>NE\<close> and
  \<open>RE\<close> tags of the table are the \<open>LE\<close>/\<open>BE\<close> tags according to the host byte order.
  \<open>pa_set_mix_func\<close> can replace an entry of \<open>do_mix_table\<close>; the model is of the table
  before any replacement.
\<close>

definition calc_stream_volumes_table ::
  "'f ext \<Rightarrow> pa_sample_format \<Rightarrow> 'f pa_mix_info list \<Rightarrow> pa_cvolume \<Rightarrow> pa_sample_spec
     \<Rightarrow> 'f pa_mix_info list" where
  "calc_stream_volumes_table x f =
     (case f of
        PA_SAMPLE_FLOAT32LE \<Rightarrow> calc_linear_float_stream_volumes (curve x) (scratch_f x)
      | PA_SAMPLE_FLOAT32BE \<Rightarrow> calc_linear_float_stream_volumes (curve x) (scratch_f x)
      | _ \<Rightarrow> calc_linear_integer_stream_volumes (curve x) (scratch_f x))"

definition do_mix_table ::
  "'f ext \<Rightarrow> pa_sample_format \<Rightarrow> 'f pa_mix_info list \<Rightarrow> nat \<Rightarrow> mem \<Rightarrow> nat \<Rightarrow> nat
     \<Rightarrow> 'f pa_mix_info list \<times> mem" where
  "do_mix_table x f =
     (let be = host_be x in
      case f of
        PA_SAMPLE_U8 \<Rightarrow> pa_mix_u8_c
      | PA_SAMPLE_ALAW \<Rightarrow> pa_mix_alaw_c (codec x)
      | PA_SAMPLE_ULAW \<Rightarrow> pa_mix_ulaw_c (codec x)
      | PA_SAMPLE_S16LE \<Rightarrow> (if be then pa_mix_s16re_c be else pa_mix_s16ne_c be)
      | PA_SAMPLE_S16BE \<Rightarrow> (if be then pa_mix_s16ne_c be else pa_mix_s16re_c be)
      | PA_SAMPLE_FLOAT32LE \<Rightarrow>
          (if be then pa_mix_float32re_c (fops x) be else pa_mix_float32ne_c (fops x) be)
      | PA_SAMPLE_FLOAT32BE \<Rightarrow>
          (if be then pa_mix_float32ne_c (fops x) be else pa_mix_float32re_c (fops x) be)
      | PA_SAMPLE_S32LE \<Rightarrow> (if be then pa_mix_s32re_c be else pa_mix_s32ne_c be)
      | PA_SAMPLE_S32BE \<Rightarrow> (if be then pa_mix_s32ne_c be else pa_mix_s32re_c be)
      | PA_SAMPLE_S24LE \<Rightarrow> (if be then pa_mix_s24re_c be else pa_mix_s24ne_c be)
      | PA_SAMPLE_S24BE \<Rightarrow> (if be then pa_mix_s24ne_c be else pa_mix_s24re_c be)
      | PA_SAMPLE_S24_32LE \<Rightarrow> (if be then pa_mix_s24_32re_c be else pa_mix_s24_32ne_c be)
      | PA_SAMPLE_S24_32BE \<Rightarrow> (if be then pa_mix_s24_32ne_c be else pa_mix_s24_32re_c be))"

section \<open>The mix orchestrator\<close>

text \<open>
  Modelled from the spec: the volume constants and predicates of \<open>volume.h\<close> and
  \<open>volume.c\<close>, which are not under src/. Unity and Muted are two distinct levels;
  "all-unity" and "all-muted" are per-channel equality checks; an absent output volume is
  Unity on every channel of the format.
\<close>

definition PA_VOLUME_NORM :: "32 word" where
  "PA_VOLUME_NORM = 0x10000"

definition PA_VOLUME_MUTED :: "32 word" where
  "PA_VOLUME_MUTED = 0"

definition pa_cvolume_channels_equal_to :: "pa_cvolume \<Rightarrow> 32 word \<Rightarrow> bool" where
  "pa_cvolume_channels_equal_to a v = list_all (\<lambda>c. cv_values a c = v) [0..<cv_channels a]"

definition pa_cvolume_is_muted :: "pa_cvolume \<Rightarrow> bool" where
  "pa_cvolume_is_muted a = pa_cvolume_channels_equal_to a PA_VOLUME_MUTED"

definition pa_cvolume_reset :: "nat \<Rightarrow> pa_cvolume" where
  "pa_cvolume_reset n = \<lparr>cv_channels = n, cv_values = (\<lambda>c. PA_VOLUME_NORM)\<rparr>"

text \<open>
  Modelled from the spec: \<open>pa_silence_memory\<close> and \<open>pa_silence_memchunk\<close> of
  \<open>sample-util.c\<close>, not under src/. The silence pattern is all-zero for the linear and
  float formats and a format-specific bias byte for the unsigned and companded formats.
\<close>

definition silence_byte :: "'f ext \<Rightarrow> pa_sample_format \<Rightarrow> byte" where
  "silence_byte x f =
     (case f of
        PA_SAMPLE_U8 \<Rightarrow> bias_byte x PA_SAMPLE_U8
      | PA_SAMPLE_ALAW \<Rightarrow> bias_byte x PA_SAMPLE_ALAW
      | PA_SAMPLE_ULAW \<Rightarrow> bias_byte x PA_SAMPLE_ULAW
      | _ \<Rightarrow> 0)"

definition pa_silence_memory :: "'f ext \<Rightarrow> mem \<Rightarrow> nat \<Rightarrow> nat \<Rightarrow> pa_sample_spec \<Rightarrow> mem" where
  "pa_silence_memory x m p n spec = store m p (replicate n (silence_byte x (format spec)))"

definition pa_silence_memchunk :: "'f ext \<Rightarrow> pa_memchunk \<Rightarrow> pa_sample_spec \<Rightarrow> pa_memchunk" where
  "pa_silence_memchunk x c spec =
     c\<lparr>memblock := (memblock c)
         \<lparr>mb_data := pa_silence_memory x (mb_data (memblock c)) (chunk_index c) (chunk_length c) spec\<rparr>\<rparr>"

text \<open>
  Modelled from the spec: the buffer manager (\<open>memblock.c\<close>, not under src/). Acquiring
  the chunk of stream \<open>k\<close> yields the pointer to the chunk's first byte; the calls made
  are recorded as events.
\<close>

datatype event = Acquire nat | Release nat

definition pa_memblock_acquire_chunk :: "pa_memchunk \<Rightarrow> nat" where
  "pa_memblock_acquire_chunk c = chunk_index c"

text \<open>The first loop of \<open>pa_mix\<close> (lines 579 to 583), from stream \<open>k\<close> on.\<close>

fun acquire_streams ::
  "nat \<Rightarrow> 'f pa_mix_info list \<Rightarrow> nat \<Rightarrow> 'f pa_mix_info list \<times> nat \<times> event list" where
  "acquire_streams k [] len = ([], len, [])"
| "acquire_streams k (m # ms) len =
     (let m' = m\<lparr>ptr := pa_memblock_acquire_chunk (chunk m)\<rparr>;
          len' = (if len > chunk_length (chunk m) then chunk_length (chunk m) else len)
      in case acquire_streams (k + 1) ms len' of
           (ms', len'', evs) \<Rightarrow> (m' # ms', len'', Acquire k # evs))"

record 'f mix_result =
  returned :: nat
  dest :: mem
  infos :: "'f pa_mix_info list"
  events :: "event list"

text \<open>
  \<open>pa_mix\<close>. The stream array and \<open>nstreams\<close> are one list; the destination memory is
  addressed from \<open>data\<close>, so \<open>data\<close> is offset 0 and \<open>end\<close> is \<open>len\<close>. A failed
  \<open>pa_assert\<close> aborts: the result is \<open>None\<close>. The pointer arguments are non-null by
  construction, which leaves \<open>pa_assert(length)\<close>.
\<close>

definition pa_mix ::
  "'f ext \<Rightarrow> 'f pa_mix_info list \<Rightarrow> mem \<Rightarrow> nat \<Rightarrow> pa_sample_spec \<Rightarrow> pa_cvolume option \<Rightarrow> bool
     \<Rightarrow> 'f mix_result option" where
  "pa_mix x streams dst len spec volume_opt mute =
     (if len = 0 then None
      else
        let vol = (case volume_opt of None \<Rightarrow> pa_cvolume_reset (channels spec) | Some v \<Rightarrow> v)
        in if mute \<or> pa_cvolume_is_muted vol \<or> streams = [] then
             Some \<lparr>returned = len, dest = pa_silence_memory x dst 0 len spec,
                   infos = streams, events = []\<rparr>
           else
             (case acquire_streams 0 streams len of
                (streams1, len1, evs) \<Rightarrow>
                  let streams2 = calc_stream_volumes_table x (format spec) streams1 vol spec
                  in case do_mix_table x (format spec) streams2 (channels spec) dst 0 len1 of
                       (streams3, dst') \<Rightarrow>
                         Some \<lparr>returned = len1, dest = dst', infos = streams3,
                               events = evs @ map Release [0..<length streams]\<rparr>))"

section \<open>Single-buffer volume\<close>

text \<open>
  \<open>calc_volume_table\<close> fills the scratch array \<open>volume_val linear[]\<close> either as
  \<open>int32_t\<close> or as \<open>float\<close>. The in-place kernels behind \<open>pa_get_volume_func\<close>
  (\<open>svolume_c.c\<close>) are not under src/: \<open>do_volume\<close> is a parameter.
\<close>

datatype 'f linear_scratch = LinearI "nat \<Rightarrow> 32 word" | LinearF "nat \<Rightarrow> 'f"

definition calc_volume_table :: "'f ext \<Rightarrow> pa_sample_format \<Rightarrow> pa_cvolume \<Rightarrow> 'f linear_scratch" where
  "calc_volume_table x f vol =
     (case f of
        PA_SAMPLE_FLOAT32LE \<Rightarrow> LinearF (calc_linear_float_volume (curve x) (scratch_f x) vol)
      | PA_SAMPLE_FLOAT32BE \<Rightarrow> LinearF (calc_linear_float_volume (curve x) (scratch_f x) vol)
      | _ \<Rightarrow> LinearI (calc_linear_integer_volume (curve x) (scratch_i x) vol))"

text \<open>
  Modelled from the spec: \<open>pa_sample_size\<close> and \<open>pa_frame_aligned\<close> of \<open>sample.c\<close>
  and \<open>sample-util.h\<close>, not under src/: a frame is one sample per channel, and a length
  is frame-aligned when it is a multiple of the frame size.
\<close>

definition pa_sample_size_of_format :: "pa_sample_format \<Rightarrow> nat" where
  "pa_sample_size_of_format f =
     (case f of
        PA_SAMPLE_U8 \<Rightarrow> 1 | PA_SAMPLE_ALAW \<Rightarrow> 1 | PA_SAMPLE_ULAW \<Rightarrow> 1
      | PA_SAMPLE_S16LE \<Rightarrow> 2 | PA_SAMPLE_S16BE \<Rightarrow> 2
      | PA_SAMPLE_S24LE \<Rightarrow> 3 | PA_SAMPLE_S24BE \<Rightarrow> 3
      | _ \<Rightarrow> 4)"

definition pa_frame_aligned :: "nat \<Rightarrow> pa_sample_spec \<Rightarrow> bool" where
  "pa_frame_aligned l spec = (l mod (pa_sample_size_of_format (format spec) * channels spec) = 0)"

definition pa_volume_memchunk ::
  "'f ext \<Rightarrow> (pa_sample_format \<Rightarrow> mem \<Rightarrow> nat \<Rightarrow> 'f linear_scratch \<Rightarrow> nat \<Rightarrow> nat \<Rightarrow> mem)
     \<Rightarrow> pa_memchunk \<Rightarrow> pa_sample_spec \<Rightarrow> pa_cvolume \<Rightarrow> pa_memchunk option" where
  "pa_volume_memchunk x do_volume c spec vol =
     (if \<not> pa_sample_spec_valid x spec \<or> \<not> pa_frame_aligned (chunk_length c) spec then None
      else if is_silence (memblock c) then Some c
      else if pa_cvolume_channels_equal_to vol PA_VOLUME_NORM then Some c
      else if pa_cvolume_channels_equal_to vol PA_VOLUME_MUTED
        then Some (pa_silence_memchunk x c spec)
      else
        let linear = calc_volume_table x (format spec) vol;
            p = pa_memblock_acquire_chunk c
        in Some (c\<lparr>memblock := (memblock c)
                   \<lparr>mb_data := do_volume (format spec) (mb_data (memblock c)) p linear
                                 (channels spec) (chunk_length c)\<rparr>\<rparr>))"

section \<open>Reading a kernel run\<close>

text \<open>
  The notions the properties below are stated with. Output slot \<open>j\<close> of a kernel run is
  the \<open>j\<close>-th round of the outer loop. \<open>slot_channel\<close> is the channel index of that
  round, and \<open>slot_acc\<close> the accumulator at the end of its inner loop, when every stream
  cursor has been advanced \<open>j\<close> times by \<open>rs\<close>.
\<close>

definition next_channel :: "nat \<Rightarrow> nat \<Rightarrow> nat" where
  "next_channel nch c = (if c + 1 \<ge> nch then 0 else c + 1)"

definition slot_channel :: "nat \<Rightarrow> nat \<Rightarrow> nat" where
  "slot_channel nch j = (if nch = 0 then 0 else j mod nch)"

definition slot_acc ::
  "('f pa_mix_info \<Rightarrow> nat \<Rightarrow> 'a \<Rightarrow> 'a) \<Rightarrow> nat \<Rightarrow> 'a \<Rightarrow> nat \<Rightarrow> 'f pa_mix_info list \<Rightarrow> nat
     \<Rightarrow> 'a" where
  "slot_acc acc rs zero nch streams j =
     fold (\<lambda>m. acc m (slot_channel nch j)) (map (\<lambda>m. m\<lparr>ptr := ptr m + j * rs\<rparr>) streams) zero"

definition bytes_at :: "mem \<Rightarrow> nat \<Rightarrow> nat \<Rightarrow> byte list" where
  "bytes_at m p n = map (\<lambda>i. m (p + i)) [0..<n]"

definition chunk_bytes :: "pa_memchunk \<Rightarrow> byte list" where
  "chunk_bytes c = bytes_at (mb_data (memblock c)) (chunk_index c) (chunk_length c)"







text \<open>
  The hi/lo rule on unbounded integers: \<open>hilo_int v cv\<close> is
  \<open>((v * lo) >> 16) + v * hi\<close> for the low and high halves of \<open>cv\<close>, and
  \<open>hilo_term v cv\<close> the exact contribution of a 16-bit sample \<open>v\<close> at gain \<open>cv\<close>
  (nothing when the gain is not positive).
\<close>

definition hilo_int :: "int \<Rightarrow> int \<Rightarrow> int" where
  "hilo_int v cv = (v * (cv mod 65536)) div 65536 + v * (cv div 65536)"

definition hilo_term :: "16 word \<Rightarrow> 32 word \<Rightarrow> int" where
  "hilo_term v cv = (if 0 < sint cv then hilo_int (sint v) (sint cv) else 0)"

text \<open>
  The rule that claim C6 states for the unsigned 8-bit kernel, written out as a kernel of
  its own so that it can be run beside \<open>pa_mix_u8_c\<close>: hi/lo multiplication of the
  unbiased sample, clamp of the sum to \<open>-0x8000..0x7FFF\<close>, then the bias.
\<close>

definition acc_u8_claimed :: "'f pa_mix_info \<Rightarrow> nat \<Rightarrow> 32 word \<Rightarrow> 32 word" where
  "acc_u8_claimed m channel sum0 =
     (let cv = linear_i m channel in
      if 0 <s cv then sum0 + hilo_scale (ucast (stream_mem m (ptr m)) - 0x80) cv else sum0)"

definition enc_u8_claimed :: "32 word \<Rightarrow> byte list" where
  "enc_u8_claimed sum0 = [ucast (PA_CLAMP_UNLIKELY sum0 (- 0x8000) 0x7FFF + 0x80)]"

definition pa_mix_u8_claimed ::
  "'f pa_mix_info list \<Rightarrow> nat \<Rightarrow> mem \<Rightarrow> nat \<Rightarrow> nat \<Rightarrow> 'f pa_mix_info list \<times> mem" where
  "pa_mix_u8_claimed streams nch dst data end' =
     mix_loop acc_u8_claimed 1 0 enc_u8_claimed 1 nch streams 0 dst data end'"

text \<open>
  Byte-swapping a buffer of \<open>w\<close>-byte samples reverses the bytes of every sample;
  \<open>swap_stream\<close> does so to the memory a stream reads.
\<close>

definition swap_mem :: "nat \<Rightarrow> mem \<Rightarrow> mem" where
  "swap_mem w m = (\<lambda>i. m (i - i mod w + (w - 1 - i mod w)))"

definition swap_stream :: "nat \<Rightarrow> 'f pa_mix_info \<Rightarrow> 'f pa_mix_info" where
  "swap_stream w m =
     m\<lparr>chunk := (chunk m)\<lparr>memblock := (memblock (chunk m))\<lparr>mb_data := swap_mem w (stream_mem m)\<rparr>\<rparr>\<rparr>"

section \<open>Concrete inputs\<close>

text \<open>
  Stand-ins for the external collaborators, used to run the model on concrete inputs: a
  float is a Q16.16 natural number, the volume curve is linear, the G.711 tables keep the
  top byte. None of the general theorems depends on them.
\<close>

definition ex_curve :: "nat volume_curve" where
  "ex_curve = \<lparr>to_linear_i = (\<lambda>v. v), to_linear_f = unat,
                stream_gain_i = (\<lambda>v l. word_of_nat (unat v * l div 0x10000)),
                stream_gain_f = (\<lambda>v l. unat v * l div 0x10000)\<rparr>"

definition ex_fops :: "nat float_ops" where
  "ex_fops = \<lparr>f_zero = 0, f_add = (+), f_mul = (\<lambda>a b. a * b div 0x10000),
               f_pos = (\<lambda>a. 0 < a), f_of_bits = unat, f_bits = word_of_nat\<rparr>"

definition ex_codec :: g711 where
  "ex_codec = \<lparr>st_ulaw2linear16 = (\<lambda>b. push_bit 8 (ucast b)),
                st_alaw2linear16 = (\<lambda>b. push_bit 8 (ucast b)),
                st_14linear2ulaw = (\<lambda>w. ucast (drop_bit 6 w)),
                st_13linear2alaw = (\<lambda>w. ucast (drop_bit 5 w))\<rparr>"

definition ex_bias :: "pa_sample_format \<Rightarrow> byte" where
  "ex_bias f = (case f of PA_SAMPLE_U8 \<Rightarrow> 0x80 | PA_SAMPLE_ALAW \<Rightarrow> 0xD5
                | PA_SAMPLE_ULAW \<Rightarrow> 0xFF | _ \<Rightarrow> 0)"

definition ex_ext :: "nat ext" where
  "ex_ext = \<lparr>host_be = False, codec = ex_codec, fops = ex_fops, curve = ex_curve,
              pa_sample_spec_valid = (\<lambda>s. 0 < rate s \<and> 0 < channels s \<and> channels s \<le> 32),
              bias_byte = ex_bias, scratch_f = (\<lambda>_. 0), scratch_i = (\<lambda>_. 0)\<rparr>"

definition mem_of :: "byte list \<Rightarrow> mem" where
  "mem_of bs = (\<lambda>i. if i < length bs then bs ! i else 0)"

definition ex_chunk :: "byte list \<Rightarrow> nat \<Rightarrow> pa_memchunk" where
  "ex_chunk bs n =
     \<lparr>memblock = \<lparr>mb_data = mem_of bs, is_silence = False\<rparr>, chunk_index = 0, chunk_length = n\<rparr>"

text \<open>A stream over the bytes \<open>bs\<close> with \<open>n\<close> readable bytes, stream volume Unity, and
  the integer gain \<open>g\<close> on every channel.\<close>

definition ex_stream :: "byte list \<Rightarrow> nat \<Rightarrow> 32 word \<Rightarrow> nat pa_mix_info" where
  "ex_stream bs n g =
     \<lparr>chunk = ex_chunk bs n, volume = pa_cvolume_reset 2, ptr = 0,
      linear_i = (\<lambda>_. g), linear_f = (\<lambda>_. 0)\<rparr>"

definition ex_spec :: "pa_sample_format \<Rightarrow> nat \<Rightarrow> pa_sample_spec" where
  "ex_spec f n = \<lparr>format = f, rate = 44100, channels = n\<rparr>"

definition ex_cvolume :: pa_cvolume where
  "ex_cvolume = \<lparr>cv_channels = 2, cv_values = (\<lambda>c. if c = 0 then 0x10000 else 0x8000)\<rparr>"

text \<open>Two samples, \<open>0x112233\<close> and \<open>0x445566\<close>, as 24 bit in 32 bit little-endian
  containers.\<close>

definition ex_s24_32 :: "byte list" where
  "ex_s24_32 = [0x33, 0x22, 0x11, 0, 0x66, 0x55, 0x44, 0]"

text \<open>The same two samples in big-endian containers.\<close>

definition ex_s24_32be :: "byte list" where
  "ex_s24_32be = [0, 0x11, 0x22, 0x33, 0, 0x44, 0x55, 0x66]"

text \<open>A destination buffer filled with \<open>0xAA\<close>.\<close>

definition ex_dst :: mem where
  "ex_dst = (\<lambda>i. 0xAA)"

definition ex_muted :: pa_cvolume where
  "ex_muted = \<lparr>cv_channels = 2, cv_values = (\<lambda>c. PA_VOLUME_MUTED)\<rparr>"

section \<open>The loops\<close>

declare mix_loop.simps [simp del] real_loop.simps [simp del] padding_loop.simps [simp del]

lemma mix_streams_snd:
  "snd (mix_streams acc rs ch ms s) = map (\<lambda>m. m\<lparr>ptr := ptr m + rs\<rparr>) ms"
  by (induction ms arbitrary: s) (simp_all add: split_beta)

lemma mix_streams_fst:
  "fst (mix_streams acc rs ch ms s) = fold (\<lambda>m. acc m ch) ms s"
  by (induction ms arbitrary: s) (simp_all add: split_beta)

lemma store_outside: "i < p \<or> p + length bs \<le> i \<Longrightarrow> store m p bs i = m i"
  by (auto simp: store_def)

lemma store_inside: "p \<le> i \<Longrightarrow> i < p + length bs \<Longrightarrow> store m p bs i = bs ! (i - p)"
  by (simp add: store_def)

lemma mix_loop_stop:
  "\<not> (data < e \<and> 0 < ws) \<Longrightarrow>
     mix_loop acc rs zero enc ws nch streams channel dst data e = (streams, dst)"
  by (subst mix_loop.simps) (simp only: if_False)

lemma mix_loop_step:
  "data < e \<Longrightarrow> 0 < ws \<Longrightarrow>
     mix_loop acc rs zero enc ws nch streams channel dst data e =
       mix_loop acc rs zero enc ws nch (map (\<lambda>m. m\<lparr>ptr := ptr m + rs\<rparr>) streams)
         (if channel + 1 \<ge> nch then 0 else channel + 1)
         (store dst data (enc (fold (\<lambda>m. acc m channel) streams zero))) (data + ws) e"
  by (subst mix_loop.simps) (simp add: split_beta mix_streams_fst mix_streams_snd)

lemma dvd_step:
  "(ws::nat) dvd e - data \<Longrightarrow> data < e \<Longrightarrow> data + ws \<le> e \<and> ws dvd e - (data + ws)"
  by (metis add.commute dvd_diff_nat dvd_imp_le dvd_refl diff_diff_left le_diff_conv2
      less_imp_le_nat zero_less_diff)

text \<open>A kernel run over a whole number of slots writes nothing outside \<open>[data, end)\<close>.\<close>

lemma mix_loop_footprint:
  assumes "\<forall>s. length (enc s) = ws" and "ws dvd (e - data)" and "i < data \<or> e \<le> i"
  shows "snd (mix_loop acc rs zero enc ws nch streams channel dst data e) i = dst i"
  using assms
proof (induction acc rs zero enc ws nch streams channel dst data e rule: mix_loop.induct)
  case (1 acc rs zero enc ws nch streams channel dst data e)
  show ?case
  proof (cases "data < e \<and> 0 < ws")
    case False
    then show ?thesis by (simp add: mix_loop_stop)
  next
    case True
    obtain s ms where sm: "mix_streams acc rs channel streams zero = (s, ms)"
      by (cases "mix_streams acc rs channel streams zero")
    from True "1.prems"(2) have le: "data + ws \<le> e \<and> ws dvd e - (data + ws)"
      using dvd_step by blast
    have out: "i < data \<or> data + length (enc s) \<le> i"
      using le "1.prems"(1,3) by auto
    have "snd (mix_loop acc rs zero enc ws nch streams channel dst data e) i
          = store dst data (enc s) i"
      using True le "1.prems"(1,3) sm "1.IH"[OF True sm[symmetric]]
      by (subst mix_loop.simps) auto
    also have "\<dots> = dst i" using out by (rule store_outside)
    finally show ?thesis .
  qed
qed

lemma enc_lengths [simp]:
  "length (enc_s16ne be s) = 2" "length (enc_s16re be s) = 2"
  "length (enc_s32ne be t) = 4" "length (enc_s32re be t) = 4"
  "length (enc_s24ne be t) = 3" "length (enc_s24re be t) = 3"
  "length (enc_s24_32ne be t) = 4" "length (enc_s24_32re be t) = 4"
  "length (enc_u8 s) = 1" "length (enc_law cmp sh s) = 1"
  "length (enc_float32ne fo be f) = 4" "length (enc_float32re fo be f) = 4"
  by (simp_all add: enc_s16ne_def enc_s16re_def enc_s32ne_def enc_s32re_def enc_s24ne_def
      enc_s24re_def enc_s24_32ne_def enc_s24_32re_def enc_u8_def enc_law_def
      enc_float32ne_def enc_float32re_def bytes16_def bytes32_def PA_WRITE24_def)

lemmas kernel_defs = pa_mix_u8_c_def pa_mix_alaw_c_def pa_mix_ulaw_c_def
  pa_mix_s16ne_c_def pa_mix_s16re_c_def pa_mix_s32ne_c_def pa_mix_s32re_c_def
  pa_mix_s24ne_c_def pa_mix_s24re_c_def pa_mix_s24_32ne_c_def pa_mix_s24_32re_c_def
  pa_mix_float32ne_c_def pa_mix_float32re_c_def

lemma do_mix_table_footprint:
  assumes "pa_sample_size_of_format f dvd e" and "e \<le> i"
  shows "snd (do_mix_table x f streams nch dst 0 e) i = dst i"
  using assms
  by (cases f)
     (simp_all add: do_mix_table_def Let_def pa_sample_size_of_format_def kernel_defs
        mix_loop_footprint)

section \<open>The orchestrator\<close>

lemma Min_insert_min:
  fixes a b :: nat
  assumes "finite A"
  shows "Min (insert (min a b) A) = Min (insert a (insert b A))"
proof (cases "A = {}")
  case True
  then show ?thesis by (simp add: min.commute)
next
  case False
  with assms show ?thesis by (simp add: min.assoc)
qed

lemma acquire_streams_len:
  "fst (snd (acquire_streams k ms len))
     = Min (insert len ((\<lambda>m. chunk_length (chunk m)) ` set ms))"
proof (induction ms arbitrary: k len)
  case Nil
  then show ?case by simp
next
  case (Cons m ms)
  have "(if chunk_length (chunk m) < len then chunk_length (chunk m) else len)
      = min len (chunk_length (chunk m))" by (simp add: min_def)
  then show ?case using Cons.IH
    by (simp add: split_beta Let_def Min_insert_min)
qed

lemma acquire_streams_fst:
  "fst (acquire_streams k ms len) = map (\<lambda>m. m\<lparr>ptr := chunk_index (chunk m)\<rparr>) ms"
  by (induction ms arbitrary: k len)
     (simp_all add: split_beta Let_def pa_memblock_acquire_chunk_def)

lemma pa_mix_mix_path:
  assumes "0 < len" and "streams \<noteq> []" and "\<not> mute"
    and "\<not> pa_cvolume_is_muted
             (case vol of None \<Rightarrow> pa_cvolume_reset (channels spec) | Some v \<Rightarrow> v)"
  shows "\<exists>r. pa_mix x streams dst len spec vol mute = Some r
           \<and> returned r = Min (insert len ((\<lambda>m. chunk_length (chunk m)) ` set streams))
           \<and> (pa_sample_size_of_format (format spec) dvd returned r
                \<longrightarrow> (\<forall>i\<ge>returned r. dest r i = dst i))"
proof -
  obtain s1 l1 ev where acq: "acquire_streams 0 streams len = (s1, l1, ev)"
    by (cases "acquire_streams 0 streams len") auto
  have l1: "l1 = Min (insert len ((\<lambda>m. chunk_length (chunk m)) ` set streams))"
    using acquire_streams_len[of 0 streams len] acq by simp
  let ?vol = "case vol of None \<Rightarrow> pa_cvolume_reset (channels spec) | Some v \<Rightarrow> v"
  let ?s2 = "calc_stream_volumes_table x (format spec) s1 ?vol spec"
  obtain s3 d where mx: "do_mix_table x (format spec) ?s2 (channels spec) dst 0 l1 = (s3, d)"
    by (cases "do_mix_table x (format spec) ?s2 (channels spec) dst 0 l1") auto
  have fp: "pa_sample_size_of_format (format spec) dvd l1 \<Longrightarrow> l1 \<le> i \<Longrightarrow> d i = dst i" for i
    using do_mix_table_footprint[of "format spec" l1 i x ?s2 "channels spec" dst] mx by simp
  have "pa_mix x streams dst len spec vol mute
          = Some \<lparr>returned = l1, dest = d, infos = s3,
                  events = ev @ map Release [0..<length streams]\<rparr>"
    using assms acq mx by (simp add: pa_mix_def Let_def)
  then show ?thesis using l1 fp by auto
qed

lemma sample_size_dvd_24: "pa_sample_size_of_format f dvd 24"
  by (cases f) (simp_all add: pa_sample_size_of_format_def)

text \<open>
  C4. A call of \<open>pa_mix\<close> with a positive length where mute is set, or the output volume
  is muted on every channel, or there is no stream, returns the requested length, fills
  the first \<open>len\<close> destination bytes with the silence byte of the format, acquires no
  stream buffer (no buffer-manager event, no stream cursor set) and leaves the rest of
  the destination alone.
\<close>

theorem pa_mix_silence_path:
  assumes "0 < len"
    and "mute \<or> pa_cvolume_is_muted
                   (case vol of None \<Rightarrow> pa_cvolume_reset (channels spec) | Some v \<Rightarrow> v)
         \<or> streams = []"
  shows "\<exists>r. pa_mix x streams dst len spec vol mute = Some r
           \<and> returned r = len
           \<and> (\<forall>i<len. dest r i = silence_byte x (format spec))
           \<and> (\<forall>i\<ge>len. dest r i = dst i)
           \<and> events r = []
           \<and> infos r = streams"
  using assms
  by (auto simp: pa_mix_def Let_def pa_silence_memory_def store_def)

theorem pa_mix_silence_path_witness:
  "\<exists>r. pa_mix ex_ext [ex_stream [1, 2, 3, 4] 4 0x10000] (\<lambda>_. 0xAA) 4
            (ex_spec PA_SAMPLE_U8 2) None True = Some r
       \<and> returned r = 4 \<and> dest r 0 = 0x80 \<and> dest r 3 = 0x80 \<and> dest r 4 = 0xAA
       \<and> events r = [] \<and> infos r = [ex_stream [1, 2, 3, 4] 4 0x10000]"
  using pa_mix_silence_path
          [where len = 4 and mute = True and vol = None and spec = "ex_spec PA_SAMPLE_U8 2"
             and streams = "[ex_stream [1, 2, 3, 4] 4 0x10000]" and x = ex_ext
             and dst = "\<lambda>_. 0xAA"]
  by (fastforce simp add: ex_spec_def silence_byte_def ex_ext_def ex_bias_def)

section \<open>The volume linearizers\<close>

lemma real_loop_eq:
  "real_loop conv vol n c lin =
     (max c n, \<lambda>j. if c \<le> j \<and> j < n then conv (cv_values vol j) else lin j)"
proof (induction conv vol n c lin rule: real_loop.induct)
  case (1 conv vol n c lin)
  show ?case
  proof (cases "c < n")
    case True
    have "real_loop conv vol n c lin
            = real_loop conv vol n (c + 1) (lin(c := conv (cv_values vol c)))"
      using True by (subst real_loop.simps) simp
    also note "1.IH"[OF True]
    finally show ?thesis using True by (auto simp: fun_eq_iff)
  next
    case False
    then show ?thesis
      by (subst real_loop.simps) (auto simp: fun_eq_iff)
  qed
qed

lemma padding_loop_cyclic:
  assumes "\<forall>i<p. lin (n + i) = lin i" and "i < VOLUME_PADDING"
  shows "padding_loop p (n + p) lin (n + i) = padding_loop p (n + p) lin i"
  using assms
proof (induction p "n + p" lin rule: padding_loop.induct)
  case (1 p lin)
  show ?case
  proof (cases "p < VOLUME_PADDING")
    case True
    have inv: "\<forall>i<p + 1. (lin(n + p := lin p)) (n + i) = (lin(n + p := lin p)) i"
      using "1.prems"(1) by (auto simp: less_Suc_eq)
    have "n + p + 1 = n + (p + 1)" by simp
    from "1.hyps"[OF True this inv "1.prems"(2)] True show ?thesis
      by (subst (1 2) padding_loop.simps) (simp add: add.assoc)
  next
    case False
    with "1.prems" show ?thesis
      by (subst (1 2) padding_loop.simps) simp
  qed
qed

lemma padding_loop_values:
  assumes "0 < n" and "\<forall>j<n + p. lin j = g (j mod n)" and "j < n + VOLUME_PADDING"
  shows "padding_loop p (n + p) lin j = g (j mod n)"
  using assms(2,3)
proof (induction p "n + p" lin rule: padding_loop.induct)
  case (1 p lin)
  show ?case
  proof (cases "p < VOLUME_PADDING")
    case True
    have inv: "\<forall>j<n + (p + 1). (lin(n + p := lin p)) j = g (j mod n)"
      using "1.prems"(1) assms(1) by (auto simp: less_Suc_eq)
    have "n + p + 1 = n + (p + 1)" by simp
    from "1.hyps"[OF True this inv "1.prems"(2)] True show ?thesis
      by (subst padding_loop.simps) (simp add: add.assoc)
  next
    case False
    with "1.prems" show ?thesis
      by (subst padding_loop.simps) simp
  qed
qed

lemma calc_linear_cyclic:
  assumes "i < VOLUME_PADDING"
  shows "(case real_loop conv vol n 0 lin of (c, l) \<Rightarrow> padding_loop 0 c l) (n + i)
       = (case real_loop conv vol n 0 lin of (c, l) \<Rightarrow> padding_loop 0 c l) i"
  using padding_loop_cyclic[of 0 _ n i] assms by (simp add: real_loop_eq)

lemma calc_linear_values:
  assumes "0 < n" "j < n + VOLUME_PADDING"
  shows "(case real_loop conv vol n 0 lin of (c, l) \<Rightarrow> padding_loop 0 c l) j
       = conv (cv_values vol (j mod n))"
  using padding_loop_values[of n 0 _ "\<lambda>k. conv (cv_values vol k)" j] assms
  by (simp add: real_loop_eq)

text \<open>
  C9. Both linearizers leave, in every padding slot \<open>realCount + i\<close> with \<open>i < 32\<close>, the
  value of slot \<open>i\<close>. With at least one real channel that is the linear value of channel
  \<open>i mod realCount\<close>: the real range is tiled from its start. In particular the first
  padding slot differs from the last real slot whenever the first and last real values
  differ.
\<close>

theorem linearizer_padding_cyclic:
  assumes "i < VOLUME_PADDING"
  shows "calc_linear_integer_volume vc li vol (cv_channels vol + i)
           = calc_linear_integer_volume vc li vol i
       \<and> calc_linear_float_volume vc lf vol (cv_channels vol + i)
           = calc_linear_float_volume vc lf vol i
       \<and> (0 < cv_channels vol \<longrightarrow>
            calc_linear_integer_volume vc li vol (cv_channels vol + i)
              = to_linear_i vc (cv_values vol (i mod cv_channels vol))
          \<and> calc_linear_float_volume vc lf vol (cv_channels vol + i)
              = to_linear_f vc (cv_values vol (i mod cv_channels vol)))
       \<and> (0 < cv_channels vol
            \<and> to_linear_i vc (cv_values vol 0)
                \<noteq> to_linear_i vc (cv_values vol (cv_channels vol - 1))
          \<longrightarrow> calc_linear_integer_volume vc li vol (cv_channels vol)
                \<noteq> calc_linear_integer_volume vc li vol (cv_channels vol - 1))"
proof -
  let ?n = "cv_channels vol"
  have a: "calc_linear_integer_volume vc li vol (?n + i) = calc_linear_integer_volume vc li vol i"
    unfolding calc_linear_integer_volume_def by (rule calc_linear_cyclic[OF assms])
  have b: "calc_linear_float_volume vc lf vol (?n + i) = calc_linear_float_volume vc lf vol i"
    unfolding calc_linear_float_volume_def by (rule calc_linear_cyclic[OF assms])
  have c: "calc_linear_integer_volume vc li vol j = to_linear_i vc (cv_values vol (j mod ?n))"
    if "0 < ?n" "j < ?n + VOLUME_PADDING" for j
    unfolding calc_linear_integer_volume_def by (rule calc_linear_values[OF that])
  have d: "calc_linear_float_volume vc lf vol j = to_linear_f vc (cv_values vol (j mod ?n))"
    if "0 < ?n" "j < ?n + VOLUME_PADDING" for j
    unfolding calc_linear_float_volume_def by (rule calc_linear_values[OF that])
  have e: "calc_linear_integer_volume vc li vol ?n \<noteq> calc_linear_integer_volume vc li vol (?n - 1)"
    if "0 < ?n" "to_linear_i vc (cv_values vol 0) \<noteq> to_linear_i vc (cv_values vol (?n - 1))"
    using that c[of ?n] c[of "?n - 1"] by (simp add: VOLUME_PADDING_def)
  show ?thesis
    using a b c[of "?n + i"] d[of "?n + i"] e assms by simp
qed

theorem linearizer_padding_cyclic_witness:
  "calc_linear_integer_volume ex_curve (\<lambda>_. 7) ex_cvolume 3
     = calc_linear_integer_volume ex_curve (\<lambda>_. 7) ex_cvolume 1
   \<and> calc_linear_integer_volume ex_curve (\<lambda>_. 7) ex_cvolume 3 = 0x8000
   \<and> calc_linear_float_volume ex_curve (\<lambda>_. 7) ex_cvolume 3 = 0x8000"
proof -
  have h: "(1::nat) < VOLUME_PADDING"
    by (simp add: VOLUME_PADDING_def)
  have n: "cv_channels ex_cvolume = 2" "cv_values ex_cvolume (Suc 0) = 0x8000"
    "to_linear_i ex_curve = (\<lambda>v. v)" "to_linear_f ex_curve = unat"
    by (simp_all add: ex_cvolume_def ex_curve_def)
  from linearizer_padding_cyclic [OF h, of ex_curve "\<lambda>_. 7" ex_cvolume "\<lambda>_. 7"]
  show ?thesis by (auto simp add: n)
qed

section \<open>The orchestrator on the mixing path\<close>

declare stream_channels_i.simps [simp del] stream_channels_f.simps [simp del]

lemma stream_channels_i_eq:
  "stream_channels_i vc linear nch c m =
     m\<lparr>linear_i := (\<lambda>ch. if c \<le> ch \<and> ch < nch
                          then stream_gain_i vc (cv_values (volume m) ch) (linear ch)
                          else linear_i m ch)\<rparr>"
proof (induction vc linear nch c m rule: stream_channels_i.induct)
  case (1 vc linear nch channel m)
  show ?case
  proof (cases "channel < nch")
    case True
    have "stream_channels_i vc linear nch channel m
            = stream_channels_i vc linear nch (channel + 1)
                (m\<lparr>linear_i := (linear_i m)
                     (channel := stream_gain_i vc (cv_values (volume m) channel) (linear channel))\<rparr>)"
      using True by (subst stream_channels_i.simps) simp
    also note "1.IH"[OF True]
    finally show ?thesis using True by (auto simp: fun_eq_iff)
  next
    case False
    then have "(\<lambda>ch. if channel \<le> ch \<and> ch < nch
                    then stream_gain_i vc (cv_values (volume m) ch) (linear ch)
                    else linear_i m ch) = linear_i m"
      by (auto simp: fun_eq_iff)
    then show ?thesis using False by (subst stream_channels_i.simps) simp
  qed
qed

lemma ex_not_muted: "\<not> pa_cvolume_is_muted (pa_cvolume_reset (Suc 0))"
  by (simp add: pa_cvolume_is_muted_def pa_cvolume_channels_equal_to_def pa_cvolume_reset_def
        PA_VOLUME_NORM_def PA_VOLUME_MUTED_def)

lemma ex_linear: "calc_linear_float_volume ex_curve sc (pa_cvolume_reset (Suc 0)) 0 = 65536"
  unfolding calc_linear_float_volume_def
  using calc_linear_values[of "Suc 0" 0 "to_linear_f ex_curve" "pa_cvolume_reset (Suc 0)" sc]
  by (simp add: pa_cvolume_reset_def VOLUME_PADDING_def ex_curve_def PA_VOLUME_NORM_def)

text \<open>The gains of one stream for a one-channel integer format and no output volume.\<close>

lemma ex_gains_int:
  assumes "f \<noteq> PA_SAMPLE_FLOAT32LE" "f \<noteq> PA_SAMPLE_FLOAT32BE"
  shows "calc_stream_volumes_table ex_ext f [m] (pa_cvolume_reset (Suc 0)) (ex_spec f (Suc 0))
   = [m\<lparr>linear_i := (\<lambda>ch. if ch < Suc 0
                          then stream_gain_i ex_curve (cv_values (volume m) ch) 65536
                          else linear_i m ch)\<rparr>]"
  using assms
  by (cases f)
     (simp_all add: calc_stream_volumes_table_def calc_linear_integer_stream_volumes_def
        stream_channels_i_eq ex_ext_def ex_spec_def ex_linear fun_eq_iff)

text \<open>What a call on the mixing path returns: the minimum length, and the destination
  as the kernel of the format leaves it after a run over that length.\<close>

lemma pa_mix_mix_path_eq:
  assumes "0 < len" and "streams \<noteq> []" and "\<not> mute"
    and "\<not> pa_cvolume_is_muted
             (case vol of None \<Rightarrow> pa_cvolume_reset (channels spec) | Some v \<Rightarrow> v)"
  shows "returned (the (pa_mix x streams dst len spec vol mute))
           = Min (insert len ((\<lambda>m. chunk_length (chunk m)) ` set streams))"
    and "dest (the (pa_mix x streams dst len spec vol mute))
           = snd (do_mix_table x (format spec)
                   (calc_stream_volumes_table x (format spec)
                      (map (\<lambda>m. m\<lparr>ptr := chunk_index (chunk m)\<rparr>) streams)
                      (case vol of None \<Rightarrow> pa_cvolume_reset (channels spec) | Some v \<Rightarrow> v) spec)
                   (channels spec) dst 0
                   (Min (insert len ((\<lambda>m. chunk_length (chunk m)) ` set streams))))"
proof -
  obtain s1 l1 ev where acq: "acquire_streams 0 streams len = (s1, l1, ev)"
    by (cases "acquire_streams 0 streams len") auto
  have l1: "l1 = Min (insert len ((\<lambda>m. chunk_length (chunk m)) ` set streams))"
    using acquire_streams_len[of 0 streams len] acq by simp
  have s1: "s1 = map (\<lambda>m. m\<lparr>ptr := chunk_index (chunk m)\<rparr>) streams"
    using acquire_streams_fst[of 0 streams len] acq by simp
  let ?vol = "case vol of None \<Rightarrow> pa_cvolume_reset (channels spec) | Some v \<Rightarrow> v"
  let ?s2 = "calc_stream_volumes_table x (format spec) s1 ?vol spec"
  obtain s3 d where mx: "do_mix_table x (format spec) ?s2 (channels spec) dst 0 l1 = (s3, d)"
    by (cases "do_mix_table x (format spec) ?s2 (channels spec) dst 0 l1") auto
  have e: "pa_mix x streams dst len spec vol mute
          = Some \<lparr>returned = l1, dest = d, infos = s3,
                  events = ev @ map Release [0..<length streams]\<rparr>"
    using assms acq mx by (simp add: pa_mix_def Let_def)
  show "returned (the (pa_mix x streams dst len spec vol mute))
           = Min (insert len ((\<lambda>m. chunk_length (chunk m)) ` set streams))"
    using e l1 by simp
  show "dest (the (pa_mix x streams dst len spec vol mute))
           = snd (do_mix_table x (format spec)
                   (calc_stream_volumes_table x (format spec)
                      (map (\<lambda>m. m\<lparr>ptr := chunk_index (chunk m)\<rparr>) streams)
                      (case vol of None \<Rightarrow> pa_cvolume_reset (channels spec) | Some v \<Rightarrow> v) spec)
                   (channels spec) dst 0
                   (Min (insert len ((\<lambda>m. chunk_length (chunk m)) ` set streams))))"
    using e mx l1 s1 by simp
qed

lemma frame_aligned_dvd:
  "pa_frame_aligned l spec \<Longrightarrow> pa_sample_size_of_format (format spec) dvd l"
  unfolding pa_frame_aligned_def mod_eq_0_iff_dvd by (rule dvd_mult_left)

text \<open>
  C1 as it is stated fails for a length that is not a whole number of samples, because
  the kernels write whole samples. One 16-bit stream with 3 readable bytes, one channel,
  requested length 8, no output volume, mute unset: the call returns 3, and byte 3 of the
  destination, \<open>0xAA\<close> before the call, holds the high byte \<open>0x56\<close> of the
  second sample after it.
\<close>

theorem pa_mix_unaligned_counterexample:
  "returned (the (pa_mix ex_ext [ex_stream [0x34, 0x12, 0x78, 0x56] 3 0] ex_dst 8
                    (ex_spec PA_SAMPLE_S16LE 1) None False)) = 3
   \<and> dest (the (pa_mix ex_ext [ex_stream [0x34, 0x12, 0x78, 0x56] 3 0] ex_dst 8
                    (ex_spec PA_SAMPLE_S16LE 1) None False)) 3 = 0x56
   \<and> ex_dst 3 = 0xAA"
proof -
  let ?m = "ex_stream [0x34, 0x12, 0x78, 0x56] 3 0"
  let ?sp = "ex_spec PA_SAMPLE_S16LE 1"
  have h: "(0::nat) < 8" "[?m] \<noteq> []" "\<not> False"
    "\<not> pa_cvolume_is_muted
        (case None of None \<Rightarrow> pa_cvolume_reset (channels ?sp) | Some v \<Rightarrow> v)"
    by (simp_all add: ex_spec_def ex_not_muted)
  note r = pa_mix_mix_path_eq[OF h, of ex_ext ex_dst]
  have mn: "Min (insert 8 ((\<lambda>m. chunk_length (chunk m)) ` set [?m])) = 3"
    by (simp add: ex_stream_def ex_chunk_def)
  have f: "format ?sp = PA_SAMPLE_S16LE" "channels ?sp = Suc 0"
    by (simp_all add: ex_spec_def)
  have tb: "do_mix_table ex_ext PA_SAMPLE_S16LE = pa_mix_s16ne_c False"
    by (simp add: do_mix_table_def ex_ext_def)
  have g: "calc_stream_volumes_table ex_ext PA_SAMPLE_S16LE
             (map (\<lambda>m. m\<lparr>ptr := chunk_index (chunk m)\<rparr>) [?m]) (pa_cvolume_reset (Suc 0)) ?sp
           = [?m\<lparr>ptr := 0, linear_i := (\<lambda>ch. if ch < Suc 0 then 0x10000 else 0)\<rparr>]"
    using ex_gains_int[of PA_SAMPLE_S16LE "?m\<lparr>ptr := 0\<rparr>"]
    by (simp add: ex_spec_def ex_stream_def ex_chunk_def ex_curve_def pa_cvolume_reset_def
          PA_VOLUME_NORM_def fun_eq_iff)
  have d: "snd (pa_mix_s16ne_c False
                  [?m\<lparr>ptr := 0, linear_i := (\<lambda>ch. if ch < Suc 0 then 0x10000 else 0)\<rparr>]
                  (Suc 0) ex_dst 0 3) 3 = 0x56"
    by (simp add: pa_mix_s16ne_c_def mix_loop_step mix_loop_stop enc_s16ne_def acc_s16ne_def
          stream_mem_def ex_stream_def ex_chunk_def mem_of_def load16_def cat16_def
          hilo_scale_def PA_CLAMP_UNLIKELY_def word_sless_alt bytes16_def byte_of_def store_def)
  have 1: "returned (the (pa_mix ex_ext [?m] ex_dst 8 ?sp None False)) = 3"
    by (simp only: r(1) mn)
  have "dest (the (pa_mix ex_ext [?m] ex_dst 8 ?sp None False))
          = snd (pa_mix_s16ne_c False
                   [?m\<lparr>ptr := 0, linear_i := (\<lambda>ch. if ch < Suc 0 then 0x10000 else 0)\<rparr>]
                   (Suc 0) ex_dst 0 3)"
    by (simp only: r(2) f tb g mn option.case)
  then have 2: "dest (the (pa_mix ex_ext [?m] ex_dst 8 ?sp None False)) 3 = 0x56"
    by (simp only: d)
  have 3: "ex_dst 3 = 0xAA"
    by (simp add: ex_dst_def)
  show ?thesis
    using 1 2 3 by (intro conjI)
qed

text \<open>
  C1, amended. A call of \<open>pa_mix\<close> with a positive length, at least one stream, mute
  unset and an output volume that is not muted on every channel returns the minimum of
  the requested length and the chunk lengths of the streams. When that length is a whole
  number of samples, as it is when the requested length and every chunk length are
  frame-aligned, no destination byte at or beyond it is written. With chunk lengths 40,
  24, 64 and requested length 64 the call returns 24 and leaves bytes 24..63 as they
  were, in every format.
\<close>

theorem pa_mix_returns_min_and_writes_prefix:
  assumes "0 < len" and "streams \<noteq> []" and "\<not> mute"
    and "\<not> pa_cvolume_is_muted
             (case vol of None \<Rightarrow> pa_cvolume_reset (channels spec) | Some v \<Rightarrow> v)"
  shows "\<exists>r. pa_mix x streams dst len spec vol mute = Some r
           \<and> returned r = Min (insert len ((\<lambda>m. chunk_length (chunk m)) ` set streams))
           \<and> (pa_sample_size_of_format (format spec) dvd returned r
                \<longrightarrow> (\<forall>i\<ge>returned r. dest r i = dst i))
           \<and> (pa_frame_aligned len spec
                \<and> (\<forall>m\<in>set streams. pa_frame_aligned (chunk_length (chunk m)) spec)
                \<longrightarrow> (\<forall>i\<ge>returned r. dest r i = dst i))
           \<and> (len = 64 \<and> map (\<lambda>m. chunk_length (chunk m)) streams = [40, 24, 64]
                \<longrightarrow> returned r = 24 \<and> (\<forall>i. 24 \<le> i \<and> i < 64 \<longrightarrow> dest r i = dst i))"
proof -
  obtain r where r: "pa_mix x streams dst len spec vol mute = Some r"
    "returned r = Min (insert len ((\<lambda>m. chunk_length (chunk m)) ` set streams))"
    "pa_sample_size_of_format (format spec) dvd returned r
       \<longrightarrow> (\<forall>i\<ge>returned r. dest r i = dst i)"
    using pa_mix_mix_path[OF assms] by blast
  have ex: "returned r = 24 \<and> (\<forall>i. 24 \<le> i \<and> i < 64 \<longrightarrow> dest r i = dst i)"
    if "len = 64" and l: "map (\<lambda>m. chunk_length (chunk m)) streams = [40, 24, 64]"
  proof -
    have "(\<lambda>m. chunk_length (chunk m)) ` set streams = {40, 24, 64}"
      using arg_cong[OF l, of set] by simp
    then have "returned r = 24" using r(2) that(1) by simp
    then show ?thesis using r(3) sample_size_dvd_24[of "format spec"] by simp
  qed
  have al: "\<forall>i\<ge>returned r. dest r i = dst i"
    if a: "pa_frame_aligned len spec"
      and b: "\<forall>m\<in>set streams. pa_frame_aligned (chunk_length (chunk m)) spec"
  proof -
    have "returned r \<in> insert len ((\<lambda>m. chunk_length (chunk m)) ` set streams)"
      unfolding r(2) by (rule Min_in) simp_all
    then have "pa_frame_aligned (returned r) spec"
      using a b by auto
    then show ?thesis using r(3) frame_aligned_dvd by blast
  qed
  show ?thesis using r ex al by blast
qed

theorem pa_mix_returns_min_and_writes_prefix_witness:
  "\<exists>r. pa_mix ex_ext [ex_stream [] 40 0, ex_stream [] 24 0, ex_stream [] 64 0] (\<lambda>_. 0xAA) 64
            (ex_spec PA_SAMPLE_S16LE 2) None False = Some r
       \<and> returned r = 24 \<and> dest r 24 = 0xAA \<and> dest r 63 = 0xAA"
  using pa_mix_returns_min_and_writes_prefix
          [where len = 64 and streams = "[ex_stream [] 40 0, ex_stream [] 24 0, ex_stream [] 64 0]"
             and mute = False and vol = None and spec = "ex_spec PA_SAMPLE_S16LE 2"
             and x = ex_ext and dst = "\<lambda>_. 0xAA"]
  by (fastforce simp add: ex_stream_def ex_chunk_def ex_spec_def pa_cvolume_is_muted_def
        pa_cvolume_channels_equal_to_def pa_cvolume_reset_def PA_VOLUME_NORM_def
        PA_VOLUME_MUTED_def pa_sample_size_of_format_def upt_rec)

section \<open>Bytes and words\<close>

lemma byte_bit: "bit (b::byte) n \<Longrightarrow> n < 8"
  using bit_imp_le_length[of b n] by simp

lemma byte_of_cat16 [simp]: "byte_of 0 (cat16 h l) = l" "byte_of (Suc 0) (cat16 h l) = h"
  unfolding byte_of_def cat16_def
  by (rule bit_word_eqI; auto simp: bit_simps dest: byte_bit)+

lemma cat16_byte_of [simp]: "cat16 (byte_of (Suc 0) w) (byte_of 0 w) = w"
  unfolding byte_of_def cat16_def
  by (rule bit_word_eqI; auto simp: bit_simps dest: byte_bit)

lemma byte_of_cat32 [simp]:
  "byte_of 0 (cat32 b3 b2 b1 b0) = b0" "byte_of (Suc 0) (cat32 b3 b2 b1 b0) = b1"
  "byte_of 2 (cat32 b3 b2 b1 b0) = b2" "byte_of 3 (cat32 b3 b2 b1 b0) = b3"
  unfolding byte_of_def cat32_def
  by (rule bit_word_eqI; auto simp: bit_simps dest: byte_bit)+

lemma cat32_byte_of [simp]:
  "cat32 (byte_of 3 w) (byte_of 2 w) (byte_of (Suc 0) w) (byte_of 0 w) = w"
proof (rule bit_word_eqI)
  fix n assume "n < LENGTH(32)"
  then consider "n < 8" | "8 \<le> n \<and> n < 16" | "16 \<le> n \<and> n < 24" | "24 \<le> n \<and> n < 32"
    by fastforce
  then show "bit (cat32 (byte_of 3 w) (byte_of 2 w) (byte_of (Suc 0) w) (byte_of 0 w)) n = bit w n"
    unfolding byte_of_def cat32_def
    by cases (auto simp: bit_simps dest: byte_bit)
qed

lemma cat32_byte_of_24 [simp]:
  "cat32 0 (byte_of 2 w) (byte_of (Suc 0) w) (byte_of 0 w) = take_bit 24 w"
proof (rule bit_word_eqI)
  fix n assume "n < LENGTH(32)"
  then consider "n < 8" | "8 \<le> n \<and> n < 16" | "16 \<le> n \<and> n < 24" | "24 \<le> n \<and> n < 32"
    by fastforce
  then show "bit (cat32 0 (byte_of 2 w) (byte_of (Suc 0) w) (byte_of 0 w)) n
               = bit (take_bit 24 w) n"
    unfolding byte_of_def cat32_def
    by cases (auto simp: bit_simps dest: byte_bit)
qed

lemma store_at [simp]:
  "store m p (a # bs) p = a"
  "store m p (a # b # bs) (Suc p) = b"
  "store m p (a # b # c # bs) (Suc (Suc p)) = c"
  "store m p (a # b # c # d # bs) (p + 3) = d"
  by (simp_all add: store_def)


lemma swap32_bytes: "bytes32 be (PA_UINT32_SWAP w) = bytes32 (\<not> be) w"
  by (simp add: bytes32_def PA_UINT32_SWAP_def)

lemma swap16_load: "PA_INT16_SWAP (load16 be m p) = load16 (\<not> be) m p"
  by (simp add: load16_def PA_INT16_SWAP_def)

lemma swap32_load: "PA_UINT32_SWAP (load32 be m p) = load32 (\<not> be) m p"
  by (simp add: load32_def PA_UINT32_SWAP_def)

lemma load16_store: "load16 be (store m p (bytes16 be w)) p = w"
  by (simp add: load16_def bytes16_def)

lemma load32_store: "load32 be (store m p (bytes32 be w)) p = w"
  by (simp add: load32_def bytes32_def)

lemma read24_store: "PA_READ24 be (store m p (PA_WRITE24 be u)) p = take_bit 24 u"
  by (simp add: PA_READ24_def PA_WRITE24_def)

section \<open>Output slots of a kernel run\<close>

lemma mix_loop_below:
  assumes "i < data"
  shows "snd (mix_loop acc rs zero enc ws nch streams channel dst data e) i = dst i"
  using assms
proof (induction acc rs zero enc ws nch streams channel dst data e rule: mix_loop.induct)
  case (1 acc rs zero enc ws nch streams channel dst data e)
  show ?case
  proof (cases "data < e \<and> 0 < ws")
    case False
    then show ?thesis by (simp add: mix_loop_stop)
  next
    case True
    obtain s ms where sm: "mix_streams acc rs channel streams zero = (s, ms)"
      by (cases "mix_streams acc rs channel streams zero")
    have "snd (mix_loop acc rs zero enc ws nch streams channel dst data e) i
          = store dst data (enc s) i"
      using True "1.prems" sm "1.IH"[OF True sm[symmetric]]
      by (subst mix_loop.simps) auto
    also have "\<dots> = dst i" using "1.prems" by (simp add: store_outside)
    finally show ?thesis .
  qed
qed

lemma next_channel_funpow:
  "c < nch \<or> c = 0 \<Longrightarrow> (next_channel nch ^^ j) c = (if nch = 0 then 0 else (c + j) mod nch)"
proof (induction j)
  case 0
  then show ?case by auto
next
  case (Suc j)
  show ?case
  proof (cases "nch = 0")
    case True
    then show ?thesis using Suc by (simp add: next_channel_def)
  next
    case False
    have "(next_channel nch ^^ Suc j) c = next_channel nch ((c + j) mod nch)"
      using Suc False by simp
    also have "\<dots> = (c + Suc j) mod nch"
      using False mod_less_divisor[of nch "c + j"]
      by (auto simp: next_channel_def mod_Suc simp del: mod_less_divisor)
    finally show ?thesis using False by simp
  qed
qed

lemma mix_loop_slot_gen:
  assumes "\<forall>s. length (enc s) = ws" and "0 < ws" and "data + (j + 1) * ws \<le> e" and "i < ws"
  shows "snd (mix_loop acc rs zero enc ws nch streams c dst data e) (data + j * ws + i)
           = enc (fold (\<lambda>m. acc m ((next_channel nch ^^ j) c))
                    (map (\<lambda>m. m\<lparr>ptr := ptr m + j * rs\<rparr>) streams) zero) ! i"
  using assms(3)
proof (induction j arbitrary: streams c dst data)
  case 0
  then have lt: "data < e" using assms(2) by simp
  let ?s = "fold (\<lambda>m. acc m c) streams zero"
  have "snd (mix_loop acc rs zero enc ws nch streams c dst data e) (data + i)
          = store dst data (enc ?s) (data + i)"
    using assms(4) by (simp add: mix_loop_step[OF lt assms(2)] mix_loop_below)
  also have "\<dots> = enc ?s ! i"
    using assms(1,4) by (simp add: store_def)
  finally show ?case by simp
next
  case (Suc j)
  then have lt: "data < e" using assms(2) by simp
  have le: "data + ws + (j + 1) * ws \<le> e" using Suc.prems by (simp add: algebra_simps)
  have pos: "data + Suc j * ws + i = data + ws + j * ws + i" by (simp add: algebra_simps)
  have m: "map (\<lambda>m. m\<lparr>ptr := ptr m + j * rs\<rparr>) (map (\<lambda>m. m\<lparr>ptr := ptr m + rs\<rparr>) streams)
         = map (\<lambda>m. m\<lparr>ptr := ptr m + Suc j * rs\<rparr>) streams"
    by (simp add: algebra_simps)
  have n: "(next_channel nch ^^ j) (if nch \<le> c + 1 then 0 else c + 1)
         = (next_channel nch ^^ Suc j) c"
    by (simp add: funpow_swap1 next_channel_def)
  show ?case
    unfolding pos mix_loop_step[OF lt assms(2)]
    by (subst Suc.IH[OF le]) (simp only: m n)
qed

lemma mix_loop_slot:
  assumes "\<forall>s. length (enc s) = ws" and "0 < ws" and "data + (j + 1) * ws \<le> e" and "i < ws"
  shows "snd (mix_loop acc rs zero enc ws nch streams 0 dst data e) (data + j * ws + i)
           = enc (slot_acc acc rs zero nch streams j) ! i"
  using mix_loop_slot_gen[OF assms, of acc rs zero nch streams 0 dst]
  by (simp add: slot_acc_def slot_channel_def next_channel_funpow)

lemma rounds_step:
  assumes "data < e" "0 < (ws::nat)"
  shows "(e - data + ws - 1) div ws = Suc ((e - (data + ws) + ws - 1) div ws)"
proof (cases "data + ws \<le> e")
  case True
  then obtain d where d: "e = data + ws + d"
    using le_Suc_ex by blast
  have "e - data + ws - 1 = ws + (d + ws - 1)"
    using assms(2) d by arith
  then have "(e - data + ws - 1) div ws = (ws + (d + ws - 1)) div ws"
    by (simp only:)
  also have "\<dots> = Suc ((d + ws - 1) div ws)"
    using assms(2) by (simp only: div_add_self1)
  also have "d + ws - 1 = e - (data + ws) + ws - 1"
    using d by arith
  finally show ?thesis .
next
  case False
  define d where "d = e - data - 1"
  have d: "e = data + Suc d" "Suc d < ws"
    using assms(1) False unfolding d_def by arith+
  have "e - data + ws - 1 = ws + d"
    using d by arith
  then have "(e - data + ws - 1) div ws = (ws + d) div ws"
    by (simp only:)
  also have "\<dots> = d div ws + 1"
    using assms(2) by (simp only: div_add_self1)
  also have "d div ws = 0" using d by simp
  finally have l: "(e - data + ws - 1) div ws = Suc 0" by simp
  have "e - (data + ws) + ws - 1 = ws - 1" using d by arith
  then have "(e - (data + ws) + ws - 1) div ws = (ws - 1) div ws" by (simp only:)
  also have "\<dots> = 0" using assms(2) by simp
  finally show ?thesis using l by simp
qed

lemma mix_loop_streams:
  "fst (mix_loop acc rs zero enc ws nch streams c dst data e)
     = (if 0 < ws then map (\<lambda>m. m\<lparr>ptr := ptr m + ((e - data + ws - 1) div ws) * rs\<rparr>) streams
        else streams)"
proof (induction acc rs zero enc ws nch streams c dst data e rule: mix_loop.induct)
  case (1 acc rs zero enc ws nch streams channel dst data e)
  show ?case
  proof (cases "data < e \<and> 0 < ws")
    case False
    then have "0 < ws \<Longrightarrow> (e - data + ws - 1) div ws = 0" by simp
    then show ?thesis using False by (auto simp: mix_loop_stop)
  next
    case True
    obtain s ms where sm: "mix_streams acc rs channel streams zero = (s, ms)"
      by (cases "mix_streams acc rs channel streams zero")
    have ms: "ms = map (\<lambda>m. m\<lparr>ptr := ptr m + rs\<rparr>) streams"
      using mix_streams_snd[of acc rs channel streams zero] sm by simp
    have "fst (mix_loop acc rs zero enc ws nch streams channel dst data e)
            = map (\<lambda>m. m\<lparr>ptr := ptr m + ((e - (data + ws) + ws - 1) div ws) * rs\<rparr>) ms"
      using True sm "1.IH"[OF True sm[symmetric]]
      by (subst mix_loop.simps) auto
    also have "\<dots> = map (\<lambda>m. m\<lparr>ptr := ptr m + ((e - data + ws - 1) div ws) * rs\<rparr>) streams"
      unfolding ms rounds_step[of data e ws, OF conjunct1[OF True] conjunct2[OF True]]
      by (simp add: add.assoc)
    finally show ?thesis using True by simp
  qed
qed


lemma clamp_sint:
  "sint lo \<le> sint hi \<Longrightarrow>
   sint (PA_CLAMP_UNLIKELY x lo hi) = max (sint lo) (min (sint hi) (sint x))"
  by (simp add: PA_CLAMP_UNLIKELY_def word_sless_alt max_def min_def)






lemma u8_rebias:
  assumes "- 128 \<le> sint (c::32 word)" "sint c \<le> 127"
  shows "uint (ucast (c + 0x80) :: 8 word) = sint c + 128"
proof -
  have 1: "uint (c + 0x80) = take_bit 32 (uint c + 128)"
    by (simp add: uint_word_ariths take_bit_eq_mod)
  have 4: "take_bit 8 (uint c) = take_bit 8 (sint c)"
    by (simp add: sint_uint take_bit_signed_take_bit)
  have "uint (ucast (c + 0x80) :: 8 word) = take_bit 8 (uint (c + 0x80))"
    by (simp add: unsigned_ucast_eq)
  also have "\<dots> = take_bit 8 (uint c + 128)"
    unfolding 1 by simp
  also have "\<dots> = take_bit 8 (take_bit 8 (uint c) + take_bit 8 128)"
    by (simp only: take_bit_add)
  also have "\<dots> = take_bit 8 (sint c + 128)"
    unfolding 4 by (rule take_bit_add)
  also have "\<dots> = sint c + 128"
    using assms by (simp add: take_bit_int_eq_self)
  finally show ?thesis .
qed





lemma clamp8: "uint (ucast (PA_CLAMP_UNLIKELY (s::32 word) (- 0x80) 0x7F + 0x80) :: 8 word) - 0x80
                  = max (- 0x80) (min 0x7F (sint s))"
proof -
  have c: "sint (PA_CLAMP_UNLIKELY s (- 0x80) 0x7F) = max (- 0x80) (min 0x7F (sint s))"
    by (subst clamp_sint) simp_all
  show ?thesis
    by (subst u8_rebias) (simp_all add: c)
qed

section \<open>Clamping in the integer kernels\<close>








section \<open>The 32-bit accumulator of the 16-bit kernels\<close>

lemma prod_bound:
  fixes x y a b :: int
  assumes "- a \<le> x" "x \<le> a" "0 \<le> y" "y \<le> b"
  shows "- (a * b) \<le> x * y \<and> x * y \<le> a * b"
proof -
  have a0: "0 \<le> a" using assms by linarith
  have "\<bar>x * y\<bar> = \<bar>x\<bar> * \<bar>y\<bar>" by (simp add: abs_mult)
  also have "\<dots> \<le> a * b"
    using assms a0 by (intro mult_mono) auto
  finally show ?thesis by linarith
qed

lemma sint16_range: "- 32768 \<le> sint (v::16 word) \<and> sint v < 32768"
  using sint_ge[of v] sint_lt[of v] by simp

lemma sint_scast_16_32: "sint (scast (v::16 word) :: 32 word) = sint v"
  using sint16_range[of v] by (simp add: signed_scast_eq signed_take_bit_int_eq_self)

lemma hi_val: "sint (signed_drop_bit 16 (cv::32 word)) = sint cv div 65536"
  by (simp add: sint_signed_drop_bit_eq drop_bit_eq_div)

lemma lo_val: "sint ((cv::32 word) AND 0xFFFF) = sint cv mod 65536"
proof -
  have m: "(cv AND 0xFFFF) = take_bit 16 cv"
    by (simp add: take_bit_eq_mask mask_eq_exp_minus_1)
  have "sint (take_bit 16 cv) = take_bit 16 (sint cv)"
    by (simp add: signed_take_bit_eq)
  also have "\<dots> = sint cv mod 65536"
    by (simp add: take_bit_eq_mod)
  finally show ?thesis unfolding m .
qed

lemma div_65536_bound:
  fixes t :: int
  assumes "- (32768 * 65535) \<le> t \<and> t \<le> 32768 * 65535"
  shows "- 32768 \<le> t div 65536 \<and> t div 65536 \<le> 32767"
proof -
  have "(- (32768 * 65535)) div 65536 \<le> t div 65536"
    using assms by (intro zdiv_mono1) simp_all
  moreover have "t div 65536 \<le> (32768 * 65535) div 65536"
    using assms by (intro zdiv_mono1) simp_all
  ultimately show ?thesis by simp
qed

text \<open>The hi/lo multiplication of a 16-bit sample never overflows 32 bits.\<close>

lemma hilo_exact:
  fixes v :: "16 word" and cv :: "32 word"
  assumes "0 <s cv"
  shows "sint (hilo_scale (scast v) cv) = hilo_int (sint v) (sint cv)"
proof -
  have cv: "0 < sint cv" "sint cv < 2147483648"
    using assms sint_lt[of cv] by (simp_all add: word_sless_alt)
  have lo: "0 \<le> sint cv mod 65536" "sint cv mod 65536 \<le> 65535" by simp_all
  have hi: "0 \<le> sint cv div 65536" "sint cv div 65536 \<le> 32767" using cv by simp_all
  have v: "- 32768 \<le> sint v" "sint v \<le> 32768" using sint16_range[of v] by simp_all
  have p1: "- (32768 * 65535) \<le> sint v * (sint cv mod 65536)
            \<and> sint v * (sint cv mod 65536) \<le> 32768 * 65535"
    using prod_bound[OF v lo] .
  have p2: "- (32768 * 32767) \<le> sint v * (sint cv div 65536)
            \<and> sint v * (sint cv div 65536) \<le> 32768 * 32767"
    using prod_bound[OF v hi] .
  have m1: "sint ((scast v :: 32 word) * (cv AND 0xFFFF)) = sint v * (sint cv mod 65536)"
    using p1 by (simp add: sint_word_mult sint_scast_16_32 lo_val signed_take_bit_int_eq_self)
  have m2: "sint ((scast v :: 32 word) * signed_drop_bit 16 cv) = sint v * (sint cv div 65536)"
    using p2 by (simp add: sint_word_mult sint_scast_16_32 hi_val signed_take_bit_int_eq_self)
  note d = div_65536_bound[OF p1]
  show ?thesis
    using d p2
    by (simp add: hilo_scale_def hilo_int_def Let_def sint_word_add m1 m2 sint_signed_drop_bit_eq
        drop_bit_eq_div signed_take_bit_int_eq_self)
qed

lemma hilo_int_unity_bound:
  assumes "0 < cv" "cv \<le> 65536" "- 32768 \<le> v" "v < 32768"
  shows "- 32768 \<le> hilo_int v cv \<and> hilo_int v cv \<le> 32767"
proof (cases "cv = 65536")
  case True
  then show ?thesis using assms by (simp add: hilo_int_def)
next
  case False
  then have c: "0 \<le> cv" "cv \<le> 65535" using assms by simp_all
  have v: "- 32768 \<le> v" "v \<le> 32768" using assms by simp_all
  have p: "- (32768 * 65535) \<le> v * cv \<and> v * cv \<le> 32768 * 65535"
    using prod_bound[OF v c] .
  from div_65536_bound[OF p] show ?thesis using c assms by (simp add: hilo_int_def)
qed

lemma hilo_term_bound:
  assumes "sint cv \<le> 0x10000"
  shows "- 32768 \<le> hilo_term v cv \<and> hilo_term v cv \<le> 32767"
  using assms hilo_int_unity_bound[of "sint cv" "sint v"] sint16_range[of v]
  by (simp add: hilo_term_def)

lemma acc_hilo_exact:
  assumes "acc = (\<lambda>m ch s. let cv = linear_i m ch in
                    if 0 <s cv then s + hilo_scale (scast (d m)) cv else s)"
    and "- 2147483648 \<le> sint s + hilo_term (d m) (linear_i m channel)"
    and "sint s + hilo_term (d m) (linear_i m channel) < 2147483648"
  shows "sint (acc m channel s) = sint s + hilo_term (d m) (linear_i m channel)"
proof (cases "0 <s linear_i m channel")
  case True
  have t: "hilo_term (d m) (linear_i m channel)
             = sint (hilo_scale (scast (d m)) (linear_i m channel))"
    using True by (simp add: hilo_term_def word_sless_alt hilo_exact)
  have "acc m channel s = s + hilo_scale (scast (d m)) (linear_i m channel)"
    using True by (simp add: assms(1) Let_def)
  then show ?thesis
    using assms(2,3) unfolding t by (simp add: sint_word_add signed_take_bit_int_eq_self)
next
  case False
  then show ?thesis
    by (simp add: assms(1) hilo_term_def Let_def word_sless_alt)
qed

lemma fold_acc_hilo_exact:
  assumes "acc = (\<lambda>m ch s. let cv = linear_i m ch in
                    if 0 <s cv then s + hilo_scale (scast (d m)) cv else s)"
    and "\<forall>m\<in>set xs. sint (linear_i m channel) \<le> 0x10000"
    and "- 2147483648 + 32768 * int (length xs) \<le> sint s"
    and "sint s + 32768 * int (length xs) < 2147483648"
  shows "sint (fold (\<lambda>m. acc m channel) xs s)
           = sint s + (\<Sum>m\<leftarrow>xs. hilo_term (d m) (linear_i m channel))"
  using assms(2-)
proof (induction xs arbitrary: s)
  case Nil
  then show ?case by simp
next
  case (Cons m xs)
  have b: "- 32768 \<le> hilo_term (d m) (linear_i m channel)
           \<and> hilo_term (d m) (linear_i m channel) \<le> 32767"
    using Cons.prems(1) by (simp add: hilo_term_bound)
  have e: "sint (acc m channel s) = sint s + hilo_term (d m) (linear_i m channel)"
    using b Cons.prems(2,3) by (intro acc_hilo_exact[OF assms(1)]) auto
  have "sint (fold (\<lambda>m. acc m channel) xs (acc m channel s))
          = sint (acc m channel s) + (\<Sum>m\<leftarrow>xs. hilo_term (d m) (linear_i m channel))"
    using Cons.prems b e by (intro Cons.IH) auto
  then show ?case using e by simp
qed

lemma sum_terms_bound:
  assumes "\<forall>m\<in>set xs. sint (linear_i m channel) \<le> 0x10000"
  shows "- (32768 * int (length xs)) \<le> (\<Sum>m\<leftarrow>xs. hilo_term (d m) (linear_i m channel))
       \<and> (\<Sum>m\<leftarrow>xs. hilo_term (d m) (linear_i m channel)) \<le> 32767 * int (length xs)"
  using assms
proof (induction xs)
  case Nil
  then show ?case by simp
next
  case (Cons m xs)
  have "- 32768 \<le> hilo_term (d m) (linear_i m channel)
        \<and> hilo_term (d m) (linear_i m channel) \<le> 32767"
    using Cons.prems by (simp add: hilo_term_bound)
  then show ?case using Cons by (simp add: algebra_simps)
qed

lemma prefix_sum_exact:
  assumes "acc = (\<lambda>m ch s. let cv = linear_i m ch in
                    if 0 <s cv then s + hilo_scale (scast (d m)) cv else s)"
    and "\<forall>m\<in>set ms. sint (linear_i m channel) \<le> 0x10000"
    and "length ms \<le> 2 ^ 15"
    and "k \<le> length ms"
  shows "sint (fst (mix_streams acc 2 channel (take k ms) (0::32 word)))
           = (\<Sum>m\<leftarrow>take k ms. hilo_term (d m) (linear_i m channel))
       \<and> - (2 ^ 31) \<le> (\<Sum>m\<leftarrow>take k ms. hilo_term (d m) (linear_i m channel))
       \<and> (\<Sum>m\<leftarrow>take k ms. hilo_term (d m) (linear_i m channel)) < 2 ^ 31"
proof -
  let ?xs = "take k ms"
  have g: "\<forall>m\<in>set ?xs. sint (linear_i m channel) \<le> 0x10000"
    using assms(2) by (meson in_set_takeD)
  have l: "int (length ?xs) \<le> 32768" using assms(3,4) by simp
  have "sint (fold (\<lambda>m. acc m channel) ?xs 0)
          = sint (0::32 word) + (\<Sum>m\<leftarrow>?xs. hilo_term (d m) (linear_i m channel))"
    using l by (intro fold_acc_hilo_exact[OF assms(1) g]) simp_all
  moreover note sum_terms_bound[OF g, of d]
  ultimately show ?thesis using l by (simp add: mix_streams_fst)
qed

text \<open>
  C10. In the 16-bit kernels (native and reversed), when every gain of the current channel
  is at most unity (\<open>0x10000\<close>) and there are at most \<open>2^15\<close> streams, the
  accumulator after any number \<open>k\<close> of streams of the inner loop holds the exact sum of
  the \<open>k\<close> contributions, computed on unbounded integers, and that sum lies in the
  \<open>int32_t\<close> range: no addition wraps. So does no multiplication
  (\<open>hilo_exact\<close>).
\<close>

theorem s16_accumulator_no_overflow:
  assumes "\<forall>m\<in>set ms. sint (linear_i m channel) \<le> 0x10000"
    and "length ms \<le> 2 ^ 15"
    and "k \<le> length ms"
  shows "sint (fst (mix_streams (acc_s16ne be) 2 channel (take k ms) 0))
           = (\<Sum>m\<leftarrow>take k ms. hilo_term (load16 be (stream_mem m) (ptr m)) (linear_i m channel))
       \<and> - (2 ^ 31)
           \<le> (\<Sum>m\<leftarrow>take k ms. hilo_term (load16 be (stream_mem m) (ptr m)) (linear_i m channel))
       \<and> (\<Sum>m\<leftarrow>take k ms. hilo_term (load16 be (stream_mem m) (ptr m)) (linear_i m channel))
           < 2 ^ 31
       \<and> sint (fst (mix_streams (acc_s16re be) 2 channel (take k ms) 0))
           = (\<Sum>m\<leftarrow>take k ms.
                hilo_term (PA_INT16_SWAP (load16 be (stream_mem m) (ptr m))) (linear_i m channel))
       \<and> - (2 ^ 31)
           \<le> (\<Sum>m\<leftarrow>take k ms.
                hilo_term (PA_INT16_SWAP (load16 be (stream_mem m) (ptr m))) (linear_i m channel))
       \<and> (\<Sum>m\<leftarrow>take k ms.
                hilo_term (PA_INT16_SWAP (load16 be (stream_mem m) (ptr m))) (linear_i m channel))
           < 2 ^ 31"
proof -
  have ne: "acc_s16ne be = (\<lambda>m ch s. let cv = linear_i m ch in
              if 0 <s cv then s + hilo_scale (scast (load16 be (stream_mem m) (ptr m))) cv else s)"
    by (simp add: fun_eq_iff acc_s16ne_def)
  have re: "acc_s16re be = (\<lambda>m ch s. let cv = linear_i m ch in
              if 0 <s cv
              then s + hilo_scale (scast (PA_INT16_SWAP (load16 be (stream_mem m) (ptr m)))) cv
              else s)"
    by (simp add: fun_eq_iff acc_s16re_def)
  show ?thesis
    using prefix_sum_exact[where acc = "acc_s16ne be"
            and d = "\<lambda>m. load16 be (stream_mem m) (ptr m)", OF ne assms]
      prefix_sum_exact[where acc = "acc_s16re be"
            and d = "\<lambda>m. PA_INT16_SWAP (load16 be (stream_mem m) (ptr m))", OF re assms]
    by simp
qed

theorem s16_accumulator_no_overflow_witness:
  "sint (fst (mix_streams (acc_s16ne False) 2 0
                (take 2 [ex_stream [0, 0x80] 2 0x10000, ex_stream [0, 0x80] 2 0x10000]) 0))
     = - 65536"
proof -
  have l: "load16 False (mem_of [0, 0x80]) 0 = 0x8000"
    by (simp add: load16_def mem_of_def cat16_def)
  from s16_accumulator_no_overflow
         [where ms = "[ex_stream [0, 0x80] 2 0x10000, ex_stream [0, 0x80] 2 0x10000]"
            and channel = 0 and k = 2 and be = False]
  show ?thesis
    by (simp add: ex_stream_def ex_chunk_def stream_mem_def l hilo_term_def hilo_int_def)
qed

section \<open>The unsigned 8-bit kernel\<close>

lemma mix_loop_one_slot:
  assumes "0 < ws" "data < e" "e \<le> data + ws"
  shows "mix_loop acc rs zero enc ws nch streams channel dst data e
           = (map (\<lambda>m. m\<lparr>ptr := ptr m + rs\<rparr>) streams,
              store dst data (enc (fold (\<lambda>m. acc m channel) streams zero)))"
  using assms by (simp add: mix_loop_step mix_loop_stop)

text \<open>
  Two streams holding the byte \<open>0xFF\<close> at unity gain: the source writes \<open>0xFF\<close>
  (the sum 254 clamped to 127, plus the bias), the rule of C6 gives \<open>0x7E\<close> (254 is
  inside \<open>-0x8000..0x7FFF\<close>, and 254 + 128 does not fit the byte).
\<close>

theorem u8_kernel_rule_counterexample:
  "snd (pa_mix_u8_c [ex_stream [0xFF] 1 0x10000, ex_stream [0xFF] 1 0x10000] 1 (\<lambda>_. 0) 0 1) 0
     = 0xFF
   \<and> snd (pa_mix_u8_claimed [ex_stream [0xFF] 1 0x10000, ex_stream [0xFF] 1 0x10000] 1
            (\<lambda>_. 0) 0 1) 0
     = 0x7E"
  by (simp add: pa_mix_u8_c_def pa_mix_u8_claimed_def mix_loop_one_slot acc_u8_def
        acc_u8_claimed_def enc_u8_def enc_u8_claimed_def ex_stream_def ex_chunk_def
        stream_mem_def mem_of_def hilo_scale_def PA_CLAMP_UNLIKELY_def word_sless_alt)

lemma hilo_int_eq: "hilo_int v cv = (v * cv) div 65536"
proof -
  have "v * cv = v * (cv mod 65536) + (v * (cv div 65536)) * 65536"
    by (simp add: algebra_simps flip: distrib_left)
  then have "(v * cv) div 65536 = (v * (cv mod 65536) + (v * (cv div 65536)) * 65536) div 65536"
    by simp
  also have "\<dots> = (v * (cv mod 65536)) div 65536 + v * (cv div 65536)"
    by (simp only: div_mult_self3)
  finally show ?thesis by (simp add: hilo_int_def)
qed

lemma sint_u8_unbias: "sint (ucast (b::byte) - 0x80 :: 32 word) = uint b - 0x80"
proof -
  have b: "0 \<le> uint b" "uint b < 256"
    using uint_lt2p[of b] by simp_all
  have "signed_take_bit 31 (uint b) = uint b"
  proof (rule signed_take_bit_int_eq_self)
    show "- (2 ^ 31) \<le> uint b" by (rule order_trans[of _ 0]) simp_all
    show "uint b < 2 ^ 31" using b(2) by simp
  qed
  then have u: "sint (ucast b :: 32 word) = uint b"
    by (simp add: signed_ucast_eq)
  show ?thesis
    using b by (simp add: sint_word_ariths u signed_take_bit_int_eq_self)
qed

text \<open>
  C6, amended. The unsigned 8-bit kernel removes the bias \<open>0x80\<close> from each sample,
  applies a positive gain by the single 32-bit multiplication \<open>(sample * gain) >> 16\<close>
  (whenever the product fits 32 bits this is the value of the hi/lo rule), and writes
  into every output slot the sum clamped to \<open>-0x80..0x7F\<close> plus the bias \<open>0x80\<close>.
\<close>

theorem u8_kernel_rule:
  assumes "data + j < e"
    and "0 <s linear_i m ch"
    and "- (2 ^ 31) \<le> (uint (stream_mem m (ptr m)) - 0x80) * sint (linear_i m ch)"
    and "(uint (stream_mem m (ptr m)) - 0x80) * sint (linear_i m ch) < 2 ^ 31"
  shows "sint (acc_u8 m ch s - s)
           = ((uint (stream_mem m (ptr m)) - 0x80) * sint (linear_i m ch)) div 0x10000
       \<and> sint (acc_u8 m ch s - s)
           = hilo_int (uint (stream_mem m (ptr m)) - 0x80) (sint (linear_i m ch))
       \<and> uint (snd (pa_mix_u8_c streams nch dst data e) (data + j))
           = max (- 0x80) (min 0x7F (sint (slot_acc acc_u8 1 0 nch streams j))) + 0x80"
proof -
  let ?v = "ucast (stream_mem m (ptr m)) - 0x80 :: 32 word"
  have a: "acc_u8 m ch s - s = signed_drop_bit 16 (?v * linear_i m ch)"
    using assms(2) by (simp add: acc_u8_def Let_def)
  have p: "sint (?v * linear_i m ch) = (uint (stream_mem m (ptr m)) - 0x80) * sint (linear_i m ch)"
    using assms(3,4) by (simp add: sint_word_mult sint_u8_unbias signed_take_bit_int_eq_self)
  have 1: "sint (acc_u8 m ch s - s)
             = ((uint (stream_mem m (ptr m)) - 0x80) * sint (linear_i m ch)) div 0x10000"
    unfolding a by (simp add: sint_signed_drop_bit_eq drop_bit_eq_div p)
  have "snd (pa_mix_u8_c streams nch dst data e) (data + j * 1 + 0)
          = enc_u8 (slot_acc acc_u8 1 0 nch streams j) ! 0"
    unfolding pa_mix_u8_c_def using assms(1) by (intro mix_loop_slot) simp_all
  then have 3: "uint (snd (pa_mix_u8_c streams nch dst data e) (data + j))
                  = max (- 0x80) (min 0x7F (sint (slot_acc acc_u8 1 0 nch streams j))) + 0x80"
    using clamp8[of "slot_acc acc_u8 1 0 nch streams j"] by (simp add: enc_u8_def)
  show ?thesis using 1 3 by (simp add: hilo_int_eq)
qed

theorem u8_kernel_rule_witness:
  "sint (acc_u8 (ex_stream [0xFF] 4 0x8000) 0 0 - 0) = 63
   \<and> uint (snd (pa_mix_u8_c [ex_stream [0xFF] 4 0x8000] 2 (\<lambda>_. 0) 0 1) 0) = 191"
proof -
  have b: "stream_mem (ex_stream [0xFF] 4 0x8000) (ptr (ex_stream [0xFF] 4 0x8000)) = 0xFF"
    "linear_i (ex_stream [0xFF] 4 0x8000) 0 = 0x8000"
    by (simp_all add: ex_stream_def ex_chunk_def stream_mem_def mem_of_def)
  have s: "slot_acc acc_u8 (Suc 0) 0 2 [ex_stream [0xFF] 4 0x8000] 0 = 63"
    by (simp add: slot_acc_def slot_channel_def acc_u8_def ex_stream_def ex_chunk_def
          stream_mem_def mem_of_def word_sless_alt)
  from u8_kernel_rule
         [where data = 0 and j = 0 and e = 1 and m = "ex_stream [0xFF] 4 0x8000" and ch = 0
            and s = 0 and streams = "[ex_stream [0xFF] 4 0x8000]" and nch = 2
            and dst = "\<lambda>_. 0"]
  show ?thesis
    by (simp add: b s word_sless_alt)
qed

section \<open>Single-buffer volume: the shortcuts\<close>

text \<open>
  C8. When its assertions hold, \<open>pa_volume_memchunk\<close> returns the chunk as it is if the
  memory block is flagged as silence, whatever the volume, and if the volume is Unity on
  every channel. For a volume (of at least one channel) that is Muted on every channel,
  the bytes of the chunk are the silence byte of the format after the call, whatever
  they were before in a block not flagged as silence, and nothing else changes. (A block
  flagged as silence is returned as it is, and holds silence when the flag is right.)
\<close>

theorem pa_volume_memchunk_shortcuts:
  assumes "pa_sample_spec_valid x spec" and "pa_frame_aligned (chunk_length c) spec"
  shows "(is_silence (memblock c) \<longrightarrow> pa_volume_memchunk x do_volume c spec vol = Some c)
       \<and> (pa_cvolume_channels_equal_to vol PA_VOLUME_NORM
            \<longrightarrow> pa_volume_memchunk x do_volume c spec vol = Some c)
       \<and> (0 < cv_channels vol \<and> pa_cvolume_channels_equal_to vol PA_VOLUME_MUTED
            \<and> (is_silence (memblock c)
                 \<longrightarrow> chunk_bytes c
                       = replicate (chunk_length c) (silence_byte x (format spec)))
            \<longrightarrow> (\<exists>c'. pa_volume_memchunk x do_volume c spec vol = Some c'
                  \<and> chunk_bytes c' = replicate (chunk_length c) (silence_byte x (format spec))
                  \<and> chunk_index c' = chunk_index c \<and> chunk_length c' = chunk_length c
                  \<and> (\<forall>i. i < chunk_index c \<or> chunk_index c + chunk_length c \<le> i
                        \<longrightarrow> mb_data (memblock c') i = mb_data (memblock c) i)))"
proof -
  have ne: "\<not> pa_cvolume_channels_equal_to vol PA_VOLUME_NORM"
    if "0 < cv_channels vol" "pa_cvolume_channels_equal_to vol PA_VOLUME_MUTED"
  proof -
    have "cv_values vol 0 = PA_VOLUME_MUTED"
      using that by (auto simp: pa_cvolume_channels_equal_to_def list_all_iff)
    then show ?thesis using that(1)
      by (auto simp: pa_cvolume_channels_equal_to_def list_all_iff PA_VOLUME_MUTED_def
          PA_VOLUME_NORM_def intro!: bexI[of _ 0])
  qed
  have sil: "chunk_bytes (pa_silence_memchunk x c spec)
               = replicate (chunk_length c) (silence_byte x (format spec))"
    by (rule nth_equalityI)
       (simp_all add: chunk_bytes_def bytes_at_def pa_silence_memchunk_def pa_silence_memory_def
          store_def)
  show ?thesis
    using assms ne sil
    by (auto simp: pa_volume_memchunk_def pa_silence_memchunk_def pa_silence_memory_def store_def)
qed

theorem pa_volume_memchunk_shortcuts_witness:
  "(\<exists>c'. pa_volume_memchunk ex_ext (\<lambda>f m p l n k. m) (ex_chunk [1, 2, 3, 4] 4)
            (ex_spec PA_SAMPLE_U8 2) ex_muted = Some c'
         \<and> chunk_bytes c' = replicate 4 0x80)
   \<and> pa_volume_memchunk ex_ext (\<lambda>f m p l n k. m) (ex_chunk [1, 2, 3, 4] 4)
        (ex_spec PA_SAMPLE_U8 2) (pa_cvolume_reset 2) = Some (ex_chunk [1, 2, 3, 4] 4)"
proof -
  have h: "pa_sample_spec_valid ex_ext (ex_spec PA_SAMPLE_U8 2)"
    "pa_frame_aligned (chunk_length (ex_chunk [1, 2, 3, 4] 4)) (ex_spec PA_SAMPLE_U8 2)"
    by (simp_all add: ex_ext_def ex_spec_def ex_chunk_def pa_frame_aligned_def
          pa_sample_size_of_format_def)
  have v: "\<not> is_silence (memblock (ex_chunk [1, 2, 3, 4] 4))" "0 < cv_channels ex_muted"
    "pa_cvolume_channels_equal_to ex_muted PA_VOLUME_MUTED"
    "pa_cvolume_channels_equal_to (pa_cvolume_reset 2) PA_VOLUME_NORM"
    "chunk_length (ex_chunk [1, 2, 3, 4] 4) = 4"
    "silence_byte ex_ext (format (ex_spec PA_SAMPLE_U8 2)) = 0x80"
    by (simp_all add: ex_chunk_def ex_muted_def pa_cvolume_channels_equal_to_def
          pa_cvolume_reset_def silence_byte_def ex_ext_def ex_bias_def ex_spec_def list_all_iff)
  note t = pa_volume_memchunk_shortcuts [OF h, of "\<lambda>f m p l n k. m"]
  have p: "0 < cv_channels ex_muted \<and> pa_cvolume_channels_equal_to ex_muted PA_VOLUME_MUTED
           \<and> (is_silence (memblock (ex_chunk [1, 2, 3, 4] 4))
                \<longrightarrow> chunk_bytes (ex_chunk [1, 2, 3, 4] 4)
                      = replicate (chunk_length (ex_chunk [1, 2, 3, 4] 4))
                          (silence_byte ex_ext (format (ex_spec PA_SAMPLE_U8 2))))"
    using v(1,2,3) by blast
  from t [of ex_muted, THEN conjunct2, THEN conjunct2, THEN mp, OF p]
  obtain c' where c:
    "pa_volume_memchunk ex_ext (\<lambda>f m p l n k. m) (ex_chunk [1, 2, 3, 4] 4)
       (ex_spec PA_SAMPLE_U8 2) ex_muted = Some c'"
    "chunk_bytes c' = replicate (chunk_length (ex_chunk [1, 2, 3, 4] 4))
                        (silence_byte ex_ext (format (ex_spec PA_SAMPLE_U8 2)))"
    by (elim exE conjE)
  have 1: "\<exists>c'. pa_volume_memchunk ex_ext (\<lambda>f m p l n k. m) (ex_chunk [1, 2, 3, 4] 4)
                  (ex_spec PA_SAMPLE_U8 2) ex_muted = Some c'
               \<and> chunk_bytes c' = replicate 4 0x80"
    using c by (intro exI [of _ c']) (simp add: v)
  have 2: "pa_volume_memchunk ex_ext (\<lambda>f m p l n k. m) (ex_chunk [1, 2, 3, 4] 4)
             (ex_spec PA_SAMPLE_U8 2) (pa_cvolume_reset 2) = Some (ex_chunk [1, 2, 3, 4] 4)"
    by (rule t [of "pa_cvolume_reset 2", THEN conjunct2, THEN conjunct1, THEN mp, OF v(4)])
  show ?thesis using 1 2 by (rule conjI)
qed

section \<open>Read cursors\<close>

lemma wide_unity: "wide_scale v 0x10000 = scast v"
proof -
  have "sint (wide_scale v 0x10000) = sint (scast v :: 64 word)"
  proof -
    have r: "- 2147483648 \<le> sint v" "sint v < 2147483648"
      using sint_ge[of v] sint_lt[of v] by simp_all
    have s: "sint (scast v :: 64 word) = sint v"
      using r by (simp add: signed_scast_eq signed_take_bit_int_eq_self)
    have "sint ((scast v :: 64 word) * 0x10000) = sint v * 65536"
      using r by (simp add: sint_word_mult s signed_take_bit_int_eq_self)
    then show ?thesis
      by (simp add: wide_scale_def sint_signed_drop_bit_eq drop_bit_eq_div s)
  qed
  then show ?thesis by (rule signed_word_eqI)
qed

text \<open>
  After a kernel run every stream cursor has moved by the number of output slots times
  the kernel's read stride, whatever the gains are: the stride is the sample size in
  twelve kernels, and 3 instead of 4 in \<open>pa_mix_s24_32re_c\<close>.
\<close>

lemma kernel_cursors:
  "fst (pa_mix_u8_c streams nch dst data e)
     = map (\<lambda>m. m\<lparr>ptr := ptr m + ((e - data + 1 - 1) div 1) * 1\<rparr>) streams"
  "fst (pa_mix_ulaw_c g streams nch dst data e)
     = map (\<lambda>m. m\<lparr>ptr := ptr m + ((e - data + 1 - 1) div 1) * 1\<rparr>) streams"
  "fst (pa_mix_alaw_c g streams nch dst data e)
     = map (\<lambda>m. m\<lparr>ptr := ptr m + ((e - data + 1 - 1) div 1) * 1\<rparr>) streams"
  "fst (pa_mix_s16ne_c be streams nch dst data e)
     = map (\<lambda>m. m\<lparr>ptr := ptr m + ((e - data + 2 - 1) div 2) * 2\<rparr>) streams"
  "fst (pa_mix_s16re_c be streams nch dst data e)
     = map (\<lambda>m. m\<lparr>ptr := ptr m + ((e - data + 2 - 1) div 2) * 2\<rparr>) streams"
  "fst (pa_mix_s24ne_c be streams nch dst data e)
     = map (\<lambda>m. m\<lparr>ptr := ptr m + ((e - data + 3 - 1) div 3) * 3\<rparr>) streams"
  "fst (pa_mix_s24re_c be streams nch dst data e)
     = map (\<lambda>m. m\<lparr>ptr := ptr m + ((e - data + 3 - 1) div 3) * 3\<rparr>) streams"
  "fst (pa_mix_s32ne_c be streams nch dst data e)
     = map (\<lambda>m. m\<lparr>ptr := ptr m + ((e - data + 4 - 1) div 4) * 4\<rparr>) streams"
  "fst (pa_mix_s32re_c be streams nch dst data e)
     = map (\<lambda>m. m\<lparr>ptr := ptr m + ((e - data + 4 - 1) div 4) * 4\<rparr>) streams"
  "fst (pa_mix_s24_32ne_c be streams nch dst data e)
     = map (\<lambda>m. m\<lparr>ptr := ptr m + ((e - data + 4 - 1) div 4) * 4\<rparr>) streams"
  "fst (pa_mix_float32ne_c fo be streams nch dst data e)
     = map (\<lambda>m. m\<lparr>ptr := ptr m + ((e - data + 4 - 1) div 4) * 4\<rparr>) streams"
  "fst (pa_mix_float32re_c fo be streams nch dst data e)
     = map (\<lambda>m. m\<lparr>ptr := ptr m + ((e - data + 4 - 1) div 4) * 4\<rparr>) streams"
  "fst (pa_mix_s24_32re_c be streams nch dst data e)
     = map (\<lambda>m. m\<lparr>ptr := ptr m + ((e - data + 4 - 1) div 4) * 3\<rparr>) streams"
  unfolding kernel_defs by (simp_all only: mix_loop_streams) simp_all

text \<open>
  C3 at a failing input: one stream of 24 bit in 32 bit samples, one channel, one output
  slot. The reversed-endian kernel leaves the cursor at 3, the native one at 4.
\<close>

theorem s24_32re_cursor_stride:
  "map ptr (fst (pa_mix_s24_32re_c False [ex_stream ex_s24_32 8 0x10000] 1 (\<lambda>_. 0) 0 4)) = [3]
   \<and> map ptr (fst (pa_mix_s24_32ne_c False [ex_stream ex_s24_32 8 0x10000] 1 (\<lambda>_. 0) 0 4)) = [4]"
  by (simp add: pa_mix_s24_32re_c_def pa_mix_s24_32ne_c_def mix_loop_streams ex_stream_def)

section \<open>The reversed-endian kernel for 24 bit in 32 bit\<close>

lemma clamp_id64:
  "PA_CLAMP_UNLIKELY (scast (v::32 word) :: 64 word) (- 0x80000000) 0x7FFFFFFF = scast v"
proof -
  have r: "- 2147483648 \<le> sint v" "sint v < 2147483648"
    using sint_ge[of v] sint_lt[of v] by simp_all
  have s: "sint (scast v :: 64 word) = sint v"
    using r by (simp add: signed_scast_eq signed_take_bit_int_eq_self)
  show ?thesis
    using r by (simp add: PA_CLAMP_UNLIKELY_def word_sless_alt s)
qed

lemma ucast_scast_32: "(ucast (scast (v::32 word) :: 64 word) :: 32 word) = v"
  by (rule bit_word_eqI) (auto simp: bit_simps)

text \<open>With one stream at unity gain on channel 0, a slot of a 24 in 32 bit kernel holds
  the low 24 bits of the word that the kernel loads at the stream cursor.\<close>

lemma s24_32ne_unity_slot:
  assumes "linear_i m 0 = 0x10000"
  shows "enc_s24_32ne be (acc_s24_32ne be m 0 0)
           = bytes32 be (take_bit 24 (load32 be (stream_mem m) (ptr m)))"
proof -
  have "drop_bit 8 (push_bit 8 w) = take_bit 24 w" for w :: "32 word"
    by (rule bit_word_eqI) (auto simp: bit_simps)
  then show ?thesis
    using assms
    by (simp add: enc_s24_32ne_def acc_s24_32ne_def wide_unity clamp_id64 ucast_scast_32
          word_sless_alt)
qed

lemma s24_32re_unity_slot:
  assumes "linear_i m 0 = 0x10000"
  shows "enc_s24_32re be (acc_s24_32re be m 0 0)
           = bytes32 (\<not> be) (take_bit 24 (load32 (\<not> be) (stream_mem m) (ptr m)))"
proof -
  have "drop_bit 8 (push_bit 8 w) = take_bit 24 w" for w :: "32 word"
    by (rule bit_word_eqI) (auto simp: bit_simps)
  then show ?thesis
    using assms
    by (simp add: enc_s24_32re_def acc_s24_32re_def wide_unity clamp_id64 ucast_scast_32
          swap32_bytes swap32_load word_sless_alt)
qed

text \<open>
  C2 at a failing input: one stream holding the two samples \<open>0x112233\<close> and
  \<open>0x445566\<close> in 24 in 32 bit containers, unity gain, one channel, 8 bytes. Byte 6 of
  the output of the reversed-endian kernel on the byte-swapped input is \<open>0x44\<close>;
  byte 6 of the byte-swapped output of the native kernel on the input is \<open>0x55\<close>.
  The second output sample of the reversed-endian kernel is read at offset 3, not 4.
\<close>

theorem s24_32_swap_refinement_fails:
  "snd (pa_mix_s24_32re_c False [swap_stream 4 (ex_stream ex_s24_32 8 0x10000)] 1
          (swap_mem 4 ex_dst) 0 8) 6 = 0x44
   \<and> swap_mem 4 (snd (pa_mix_s24_32ne_c False [ex_stream ex_s24_32 8 0x10000] 1 ex_dst 0 8)) 6
       = 0x55"
proof -
  let ?s = "ex_stream ex_s24_32 8 0x10000"
  let ?t = "swap_stream 4 ?s"
  have gs: "linear_i (?s\<lparr>ptr := 4\<rparr>) 0 = 0x10000" "linear_i (?t\<lparr>ptr := 3\<rparr>) 0 = 0x10000"
    by (simp_all add: ex_stream_def swap_stream_def)
  have l1: "load32 False (stream_mem (?s\<lparr>ptr := 4\<rparr>)) 4 = 0x00445566"
    by (simp add: load32_def stream_mem_def ex_stream_def ex_chunk_def mem_of_def
          ex_s24_32_def cat32_def)
  have l2: "load32 True (stream_mem (?t\<lparr>ptr := 3\<rparr>)) 3 = 0x33004455"
    by (simp add: load32_def stream_mem_def swap_stream_def swap_mem_def ex_stream_def
          ex_chunk_def mem_of_def ex_s24_32_def cat32_def)
  have e1: "enc_s24_32ne False (acc_s24_32ne False (?s\<lparr>ptr := 4\<rparr>) 0 0) = [0x66, 0x55, 0x44, 0]"
    using s24_32ne_unity_slot[OF gs(1), of False] l1
    by (simp add: bytes32_def byte_of_def)
  have e2: "enc_s24_32re False (acc_s24_32re False (?t\<lparr>ptr := 3\<rparr>) 0 0) = [0, 0, 0x44, 0x55]"
    using s24_32re_unity_slot[OF gs(2), of False] l2
    by (simp add: bytes32_def byte_of_def)
  have p: "ptr ?s = 0" "ptr ?t = 0"
    by (simp_all add: ex_stream_def swap_stream_def)
  have 1: "snd (pa_mix_s24_32re_c False [?t] 1 (swap_mem 4 ex_dst) 0 8) 6 = 0x44"
    using e2 p
    by (simp add: pa_mix_s24_32re_c_def mix_loop_step mix_loop_stop store_def)
  have "snd (pa_mix_s24_32ne_c False [?s] 1 ex_dst 0 8) 5 = 0x55"
    using e1 p
    by (simp add: pa_mix_s24_32ne_c_def mix_loop_step mix_loop_stop store_def)
  then have 2: "swap_mem 4 (snd (pa_mix_s24_32ne_c False [?s] 1 ex_dst 0 8)) 6 = 0x55"
    by (simp add: swap_mem_def)
  show ?thesis using 1 2 by (rule conjI)
qed

text \<open>
  C7 at a failing input: \<open>pa_mix\<close> on a little-endian host with one stream of two
  big-endian 24 in 32 bit samples, \<open>0x112233\<close> and \<open>0x445566\<close>, stream volume
  Unity, no output volume, mute unset, one channel, 8 bytes. Bytes 5 and 6 of the stream
  are \<open>0x44\<close> and \<open>0x55\<close>; bytes 5 and 6 of the destination are \<open>0\<close> and
  \<open>0x44\<close>: the second sample comes out as \<open>0x004455\<close>.
\<close>

theorem pa_mix_s24_32re_unity_fails:
  "dest (the (pa_mix ex_ext [ex_stream ex_s24_32be 8 0] ex_dst 8
                (ex_spec PA_SAMPLE_S24_32BE 1) None False)) 5 = 0
   \<and> dest (the (pa_mix ex_ext [ex_stream ex_s24_32be 8 0] ex_dst 8
                (ex_spec PA_SAMPLE_S24_32BE 1) None False)) 6 = 0x44
   \<and> stream_mem (ex_stream ex_s24_32be 8 0) 5 = 0x44
   \<and> stream_mem (ex_stream ex_s24_32be 8 0) 6 = 0x55"
proof -
  let ?m = "ex_stream ex_s24_32be 8 0"
  let ?sp = "ex_spec PA_SAMPLE_S24_32BE 1"
  let ?g = "?m\<lparr>ptr := 0, linear_i := (\<lambda>ch. if ch < Suc 0 then 0x10000 else 0)\<rparr>"
  have h: "(0::nat) < 8" "[?m] \<noteq> []" "\<not> False"
    "\<not> pa_cvolume_is_muted
        (case None of None \<Rightarrow> pa_cvolume_reset (channels ?sp) | Some v \<Rightarrow> v)"
    by (simp_all add: ex_spec_def ex_not_muted)
  note r = pa_mix_mix_path_eq[OF h, of ex_ext ex_dst]
  have mn: "Min (insert 8 ((\<lambda>m. chunk_length (chunk m)) ` set [?m])) = 8"
    by (simp add: ex_stream_def ex_chunk_def)
  have f: "format ?sp = PA_SAMPLE_S24_32BE" "channels ?sp = Suc 0"
    by (simp_all add: ex_spec_def)
  have tb: "do_mix_table ex_ext PA_SAMPLE_S24_32BE = pa_mix_s24_32re_c False"
    by (simp add: do_mix_table_def ex_ext_def)
  have g: "calc_stream_volumes_table ex_ext PA_SAMPLE_S24_32BE
             (map (\<lambda>m. m\<lparr>ptr := chunk_index (chunk m)\<rparr>) [?m]) (pa_cvolume_reset (Suc 0)) ?sp
           = [?g]"
    using ex_gains_int[of PA_SAMPLE_S24_32BE "?m\<lparr>ptr := 0\<rparr>"]
    by (simp add: ex_spec_def ex_stream_def ex_chunk_def ex_curve_def pa_cvolume_reset_def
          PA_VOLUME_NORM_def fun_eq_iff)
  have l: "load32 True (stream_mem (?g\<lparr>ptr := 3\<rparr>)) 3 = 0x33004455"
    by (simp add: load32_def stream_mem_def ex_stream_def ex_chunk_def mem_of_def
          ex_s24_32be_def cat32_def)
  have e: "enc_s24_32re False (acc_s24_32re False (?g\<lparr>ptr := 3\<rparr>) 0 0) = [0, 0, 0x44, 0x55]"
    using s24_32re_unity_slot[of "?g\<lparr>ptr := 3\<rparr>" False] l
    by (simp add: bytes32_def byte_of_def)
  have d: "snd (pa_mix_s24_32re_c False [?g] (Suc 0) ex_dst 0 8) 5 = 0
         \<and> snd (pa_mix_s24_32re_c False [?g] (Suc 0) ex_dst 0 8) 6 = 0x44"
    using e
    by (simp add: pa_mix_s24_32re_c_def mix_loop_step mix_loop_stop store_def)
  have "dest (the (pa_mix ex_ext [?m] ex_dst 8 ?sp None False))
          = snd (pa_mix_s24_32re_c False [?g] (Suc 0) ex_dst 0 8)"
    by (simp only: r(2) f tb g mn option.case)
  then have 1: "dest (the (pa_mix ex_ext [?m] ex_dst 8 ?sp None False)) 5 = 0"
    "dest (the (pa_mix ex_ext [?m] ex_dst 8 ?sp None False)) 6 = 0x44"
    using d by simp_all
  have 2: "stream_mem ?m 5 = 0x44" "stream_mem ?m 6 = 0x55"
    by (simp_all add: stream_mem_def ex_stream_def ex_chunk_def mem_of_def ex_s24_32be_def)
  show ?thesis
    using 1 2 by (intro conjI)
qed

end
